theory Spec2Isabelle
  imports Main "HOL-Library.Signed_Division"
begin

section \<open>Image partial-update tracking (image_gpu_partial_update.cc)\<close>

text \<open>
  A shallow embedding of the changeset-based dirty-region tracker of
  \<^verbatim>\<open>blender::bke::image::partial_update\<close> and of the C entry points
  \<^verbatim>\<open>BKE_image_partial_update_*\<close>.

  Conventions of the model.
  \<^item> \<^verbatim>\<open>int\<close>, \<^verbatim>\<open>int32_t\<close> and \<^verbatim>\<open>int64_t\<close> values are HOL integers. Signed overflow is
    undefined behaviour in C++ and is not modelled; C's truncating division is written
    \<open>sdiv\<close>. The one place where the source stores an \<^verbatim>\<open>int64_t\<close> in an \<^verbatim>\<open>int\<close>, the start
    index of the history loop, is modelled with the conversion \<open>int64_to_int\<close>.
  \<^item> Everything the C++ code can do wrong on a container is a value of \<open>error\<close>: an index
    outside a vector, a vector resized to a negative length, a failed \<^verbatim>\<open>BLI_assert\<close>.
  \<^item> A member function that mutates its receiver takes the receiver and returns the new
    one.
\<close>

subsection \<open>Errors and loops that may fail\<close>

datatype error = OutOfBounds | LengthError | AssertFailed

text \<open>A \<^verbatim>\<open>for\<close> loop over the values \<open>xs\<close> whose body may fail; the first failure ends it.\<close>

fun foldE :: "('a \<Rightarrow> 's \<Rightarrow> error + 's) \<Rightarrow> 'a list \<Rightarrow> 's \<Rightarrow> error + 's" where
  "foldE f [] s = Inr s"
| "foldE f (a # as) s = (case f a s of Inl e \<Rightarrow> Inl e | Inr s' \<Rightarrow> foldE f as s')"

subsection \<open>Types\<close>

type_synonym TileNumber = int
type_synonym ChangesetID = int

definition UnknownChangesetID :: ChangesetID where
  "UnknownChangesetID = - 1"

record rcti =
  xmin :: int
  xmax :: int
  ymin :: int
  ymax :: int

record PartialUpdateRegion =
  tile_number :: TileNumber
  region :: rcti

text \<open>The two fields of \<^verbatim>\<open>ImBuf\<close> that the tracker reads: \<^verbatim>\<open>x\<close> and \<^verbatim>\<open>y\<close>.\<close>

record ImBuf =
  imbuf_x :: int
  imbuf_y :: int

datatype ePartialUpdateCollectResult =
  PARTIAL_UPDATE_NEED_FULL_UPDATE
| PARTIAL_UPDATE_NO_CHANGES
| PARTIAL_UPDATE_CHANGES_AVAILABLE

datatype ePartialUpdateIterResult =
  PARTIAL_UPDATE_ITER_FINISHED
| PARTIAL_UPDATE_ITER_CHANGE_AVAILABLE

text \<open>
  \<^verbatim>\<open>PartialUpdateUserImpl\<close>. Its field \<^verbatim>\<open>last_changeset_id\<close> is named
  \<open>user_last_changeset_id\<close> here, since the register has a field of the same name.
\<close>

record PartialUpdateUserImpl =
  user_last_changeset_id :: ChangesetID
  updated_regions :: "PartialUpdateRegion list"

definition clear_updated_regions :: "PartialUpdateUserImpl \<Rightarrow> PartialUpdateUserImpl" where
  "clear_updated_regions user = user\<lparr>updated_regions := []\<rparr>"

subsection \<open>TileChangeset\<close>

record TileChangeset =
  chunk_dirty_flags :: "bool list"
  has_dirty_chunks :: bool
  chunk_x_len :: int
  chunk_y_len :: int

text \<open>
  A value-initialised \<^verbatim>\<open>TileChangeset\<close> (\<^verbatim>\<open>std::make_unique<TileChangeset>()\<close>, and the members
  of a register made by \<^verbatim>\<open>OBJECT_GUARDED_NEW\<close>): an empty vector, every scalar zero.
\<close>

definition TileChangeset_new :: TileChangeset where
  "TileChangeset_new =
     \<lparr>chunk_dirty_flags = [], has_dirty_chunks = False, chunk_x_len = 0, chunk_y_len = 0\<rparr>"

text \<open>
  Modelled from the spec: \<^verbatim>\<open>max_ii\<close> and \<^verbatim>\<open>min_ii\<close> are not part of the sources at hand; they
  are the maximum and the minimum of two \<^verbatim>\<open>int\<close>s (the chunk range is clamped to the grid).
\<close>

definition max_ii :: "int \<Rightarrow> int \<Rightarrow> int" where
  [simp]: "max_ii a b = max a b"

definition min_ii :: "int \<Rightarrow> int \<Rightarrow> int" where
  [simp]: "min_ii a b = min a b"

text \<open>\<^verbatim>\<open>std::vector<bool>::resize(n)\<close>: cut to \<open>n\<close> elements, or filled up with \<^verbatim>\<open>false\<close>.\<close>

definition resize :: "nat \<Rightarrow> bool list \<Rightarrow> bool list" where
  "resize n fs = take n fs @ replicate (n - length fs) False"

text \<open>
  \<^verbatim>\<open>init_chunks\<close>. A negative \<^verbatim>\<open>chunk_len\<close> converts to a \<^verbatim>\<open>size_t\<close> beyond \<^verbatim>\<open>max_size()\<close>, and
  \<^verbatim>\<open>resize\<close> throws. The clearing loop runs below both the new and the old length, so
  every index it writes exists. The old length, which the source stores in an \<^verbatim>\<open>int\<close>, is
  one that an earlier \<^verbatim>\<open>resize\<close> was given as an \<^verbatim>\<open>int\<close>.
\<close>

definition init_chunks :: "int \<Rightarrow> int \<Rightarrow> TileChangeset \<Rightarrow> error + TileChangeset" where
  "init_chunks x_len y_len t =
     (let chunk_len = x_len * y_len;
          previous_chunk_len = int (length (chunk_dirty_flags t))
      in if chunk_len < 0 then Inl LengthError
         else
           let t1 = t\<lparr>chunk_x_len := x_len, chunk_y_len := y_len,
                      chunk_dirty_flags := resize (nat chunk_len) (chunk_dirty_flags t)\<rparr>
           in if \<not> has_dirty_chunks t1 then Inr t1
              else Inr (t1\<lparr>chunk_dirty_flags :=
                              fold (\<lambda>index fs. fs[index := False])
                                [0..<nat (min_ii chunk_len previous_chunk_len)]
                                (chunk_dirty_flags t1),
                            has_dirty_chunks := False\<rparr>))"

definition reset :: "TileChangeset \<Rightarrow> error + TileChangeset" where
  "reset t = init_chunks (chunk_x_len t) (chunk_y_len t) t"

text \<open>One write \<^verbatim>\<open>chunk_dirty_flags_[chunk_index] = true\<close>.\<close>

definition set_dirty :: "int \<Rightarrow> bool list \<Rightarrow> error + bool list" where
  "set_dirty chunk_index fs =
     (if 0 \<le> chunk_index \<and> chunk_index < int (length fs)
      then Inr (fs[nat chunk_index := True]) else Inl OutOfBounds)"

definition mark_chunks_dirty ::
  "int \<Rightarrow> int \<Rightarrow> int \<Rightarrow> int \<Rightarrow> TileChangeset \<Rightarrow> error + TileChangeset" where
  "mark_chunks_dirty start_x_chunk start_y_chunk end_x_chunk end_y_chunk t =
     (case foldE (\<lambda>chunk_y.
                    foldE (\<lambda>chunk_x. set_dirty (chunk_y * chunk_x_len t + chunk_x))
                      [start_x_chunk..end_x_chunk])
             [start_y_chunk..end_y_chunk] (chunk_dirty_flags t) of
        Inl e \<Rightarrow> Inl e
      | Inr fs \<Rightarrow> Inr (t\<lparr>chunk_dirty_flags := fs, has_dirty_chunks := True\<rparr>))"

text \<open>
  \<^verbatim>\<open>merge\<close>, the receiver first. A failed \<^verbatim>\<open>BLI_assert\<close> is an error of the model (a release
  build compiles the assertions away), so a result \<open>Inr\<close> also says that both hold. When
  a changeset is merged into itself the C++ reads each flag before it writes it, as the
  model does.
\<close>

definition merge_flag :: "bool list \<Rightarrow> nat \<Rightarrow> bool list \<Rightarrow> error + bool list" where
  "merge_flag other_flags chunk_index fs =
     (if chunk_index < length fs \<and> chunk_index < length other_flags
      then Inr (fs[chunk_index := fs ! chunk_index \<or> other_flags ! chunk_index])
      else Inl OutOfBounds)"

definition merge :: "TileChangeset \<Rightarrow> TileChangeset \<Rightarrow> error + TileChangeset" where
  "merge t other =
     (if chunk_x_len t \<noteq> chunk_x_len other \<or> chunk_y_len t \<noteq> chunk_y_len other
      then Inl AssertFailed
      else
        let chunk_len = chunk_x_len t * chunk_y_len t
        in case foldE (merge_flag (chunk_dirty_flags other)) [0..<nat chunk_len]
                  (chunk_dirty_flags t) of
             Inl e \<Rightarrow> Inl e
           | Inr fs \<Rightarrow>
               Inr (t\<lparr>chunk_dirty_flags := fs,
                      has_dirty_chunks := (has_dirty_chunks t \<or> has_dirty_chunks other)\<rparr>))"

definition is_chunk_dirty :: "TileChangeset \<Rightarrow> int \<Rightarrow> int \<Rightarrow> error + bool" where
  "is_chunk_dirty t chunk_x chunk_y =
     (let chunk_index = chunk_y * chunk_x_len t + chunk_x
      in if 0 \<le> chunk_index \<and> chunk_index < int (length (chunk_dirty_flags t))
         then Inr (chunk_dirty_flags t ! nat chunk_index) else Inl OutOfBounds)"

subsection \<open>PartialUpdateRegisterImpl\<close>

record Changeset =
  tile_changeset :: TileChangeset

record PartialUpdateRegisterImpl =
  first_changeset_id :: ChangesetID
  last_changeset_id :: ChangesetID
  history :: "Changeset list"
  current_changeset :: Changeset
  image_width :: int
  image_height :: int

definition CHUNK_SIZE :: int where
  "CHUNK_SIZE = 256"

text \<open>The register \<^verbatim>\<open>OBJECT_GUARDED_NEW(PartialUpdateRegisterImpl)\<close> makes: value-initialised.\<close>

definition PartialUpdateRegisterImpl_new :: PartialUpdateRegisterImpl where
  "PartialUpdateRegisterImpl_new =
     \<lparr>first_changeset_id = 0, last_changeset_id = 0, history = [],
      current_changeset = \<lparr>tile_changeset = TileChangeset_new\<rparr>,
      image_width = 0, image_height = 0\<rparr>"

definition set_current ::
  "TileChangeset \<Rightarrow> PartialUpdateRegisterImpl \<Rightarrow> PartialUpdateRegisterImpl" where
  "set_current t r = r\<lparr>current_changeset := \<lparr>tile_changeset = t\<rparr>\<rparr>"

definition mark_full_update :: "PartialUpdateRegisterImpl \<Rightarrow> error + PartialUpdateRegisterImpl" where
  "mark_full_update r =
     (let r1 = r\<lparr>history := [], last_changeset_id := last_changeset_id r + 1\<rparr>
      in case reset (tile_changeset (current_changeset r1)) of
           Inl e \<Rightarrow> Inl e
         | Inr t \<Rightarrow> Inr ((set_current t r1)\<lparr>first_changeset_id := last_changeset_id r1\<rparr>))"

definition update_resolution ::
  "ImBuf \<Rightarrow> PartialUpdateRegisterImpl \<Rightarrow> error + PartialUpdateRegisterImpl" where
  "update_resolution image_buffer r =
     (if image_width r \<noteq> imbuf_x image_buffer \<or> image_height r \<noteq> imbuf_y image_buffer then
        let r1 = r\<lparr>image_width := imbuf_x image_buffer, image_height := imbuf_y image_buffer\<rparr>;
            x_len = image_width r1 sdiv CHUNK_SIZE;
            y_len = image_height r1 sdiv CHUNK_SIZE
        in case init_chunks x_len y_len (tile_changeset (current_changeset r1)) of
             Inl e \<Rightarrow> Inl e
           | Inr t \<Rightarrow>
               let r2 = set_current t r1
               in if has_dirty_chunks (tile_changeset (current_changeset r2)) \<or> history r2 \<noteq> []
                  then mark_full_update r2 else Inr r2
      else Inr r)"

definition chunk_number_for_pixel :: "int \<Rightarrow> int" where
  "chunk_number_for_pixel pixel_offset =
     (let chunk_offset = pixel_offset sdiv CHUNK_SIZE
      in if pixel_offset < 0 then chunk_offset - 1 else chunk_offset)"

definition mark_region :: "rcti \<Rightarrow> PartialUpdateRegisterImpl \<Rightarrow> error + PartialUpdateRegisterImpl" where
  "mark_region updated_region r =
     (let t = tile_changeset (current_changeset r);
          start_x_chunk = max_ii 0 (chunk_number_for_pixel (xmin updated_region));
          start_y_chunk = max_ii 0 (chunk_number_for_pixel (ymin updated_region));
          end_x_chunk =
            min_ii (chunk_x_len t - 1) (chunk_number_for_pixel (xmax updated_region - 1));
          end_y_chunk =
            min_ii (chunk_y_len t - 1) (chunk_number_for_pixel (ymax updated_region - 1))
      in if start_x_chunk \<ge> chunk_x_len t then Inr r
         else if start_y_chunk \<ge> chunk_y_len t then Inr r
         else if end_x_chunk < 0 then Inr r
         else if end_y_chunk < 0 then Inr r
         else case mark_chunks_dirty start_x_chunk start_y_chunk end_x_chunk end_y_chunk t of
                Inl e \<Rightarrow> Inl e
              | Inr t' \<Rightarrow> Inr (set_current t' r))"

text \<open>
  \<^verbatim>\<open>commit_current_changeset\<close>. \<^verbatim>\<open>history.append_as(std::move(current_changeset))\<close> moves the
  flag vector into the history and leaves the current one empty; the scalars, the
  summary flag among them, are copied. The \<^verbatim>\<open>reset\<close> that follows starts from that state.
\<close>

definition moved_from :: "TileChangeset \<Rightarrow> TileChangeset" where
  "moved_from t = t\<lparr>chunk_dirty_flags := []\<rparr>"

definition commit_current_changeset ::
  "PartialUpdateRegisterImpl \<Rightarrow> error + PartialUpdateRegisterImpl" where
  "commit_current_changeset r =
     (let r1 = (set_current (moved_from (tile_changeset (current_changeset r))) r)
                 \<lparr>history := history r @ [current_changeset r]\<rparr>
      in case reset (tile_changeset (current_changeset r1)) of
           Inl e \<Rightarrow> Inl e
         | Inr t \<Rightarrow> Inr ((set_current t r1)\<lparr>last_changeset_id := last_changeset_id r1 + 1\<rparr>))"

definition ensure_empty_changeset ::
  "PartialUpdateRegisterImpl \<Rightarrow> error + PartialUpdateRegisterImpl" where
  "ensure_empty_changeset r =
     (if \<not> has_dirty_chunks (tile_changeset (current_changeset r)) then Inr r
      else commit_current_changeset r)"

definition can_construct :: "PartialUpdateRegisterImpl \<Rightarrow> ChangesetID \<Rightarrow> bool" where
  "can_construct r changeset_id \<longleftrightarrow> changeset_id \<ge> first_changeset_id r"

text \<open>
  The conversion of an \<^verbatim>\<open>int64_t\<close> to a 32-bit \<^verbatim>\<open>int\<close>: the value modulo \<open>2^32\<close>, read as
  two's complement.
\<close>

definition int64_to_int :: "int \<Rightarrow> int" where
  "int64_to_int k = (k + 2147483648) mod 4294967296 - 2147483648"

text \<open>
  \<^verbatim>\<open>changed_tile_chunks_since\<close>. The tile number is unused in the source. The loop variable
  is \<^verbatim>\<open>int index = from_changeset - first_changeset_id\<close>, a difference of two \<^verbatim>\<open>int64_t\<close>
  stored in an \<^verbatim>\<open>int\<close>; the loop reads \<^verbatim>\<open>history[index]\<close> from there up to the last entry,
  and an index below zero is outside the vector.
\<close>

definition merge_history ::
  "Changeset list \<Rightarrow> int \<Rightarrow> TileChangeset \<Rightarrow> error + TileChangeset" where
  "merge_history h index changed_tiles =
     (if 0 \<le> index \<and> index < int (length h)
      then merge changed_tiles (tile_changeset (h ! nat index)) else Inl OutOfBounds)"

definition changed_tile_chunks_since ::
  "PartialUpdateRegisterImpl \<Rightarrow> TileNumber \<Rightarrow> ChangesetID \<Rightarrow> error + TileChangeset" where
  "changed_tile_chunks_since r tile from_changeset =
     (let x_len = image_width r sdiv CHUNK_SIZE;
          y_len = image_height r sdiv CHUNK_SIZE
      in case init_chunks x_len y_len TileChangeset_new of
           Inl e \<Rightarrow> Inl e
         | Inr changed_tiles \<Rightarrow>
             foldE (merge_history (history r))
               [int64_to_int (from_changeset - first_changeset_id r)..int (length (history r)) - 1]
               changed_tiles)"

subsection \<open>The C interface\<close>

text \<open>
  Of \<^verbatim>\<open>Image\<close> the tracker uses the list of tiles (their tile numbers) and the register
  pointer of the runtime data, \<open>None\<close> for \<^verbatim>\<open>nullptr\<close>.
\<close>

record Image =
  tiles :: "TileNumber list"
  partial_update_register :: "PartialUpdateRegisterImpl option"

definition image_partial_update_register_ensure :: "Image \<Rightarrow> PartialUpdateRegisterImpl" where
  "image_partial_update_register_ensure img =
     (case partial_update_register img of
        None \<Rightarrow> PartialUpdateRegisterImpl_new
      | Some r \<Rightarrow> r)"

definition BKE_image_partial_update_create :: "Image \<Rightarrow> PartialUpdateUserImpl" where
  "BKE_image_partial_update_create img =
     \<lparr>user_last_changeset_id = UnknownChangesetID, updated_regions = []\<rparr>"

text \<open>
  Modelled from the spec: \<^verbatim>\<open>BLI_rcti_init\<close> is not part of the sources at hand; the
  rectangle it fills has the four bounds it is given (each rectangle spans one chunk's
  pixel extent).
\<close>

definition BLI_rcti_init :: "int \<Rightarrow> int \<Rightarrow> int \<Rightarrow> int \<Rightarrow> rcti" where
  "BLI_rcti_init x0 x1 y0 y1 = \<lparr>xmin = x0, xmax = x1, ymin = y0, ymax = y1\<rparr>"

definition chunk_region :: "TileNumber \<Rightarrow> int \<Rightarrow> int \<Rightarrow> PartialUpdateRegion" where
  "chunk_region tile chunk_x chunk_y =
     \<lparr>tile_number = tile,
      region = BLI_rcti_init (chunk_x * CHUNK_SIZE) ((chunk_x + 1) * CHUNK_SIZE)
                 (chunk_y * CHUNK_SIZE) ((chunk_y + 1) * CHUNK_SIZE)\<rparr>"

text \<open>The body of the two loops over the chunks of one changed tile.\<close>

definition collect_chunk ::
  "TileChangeset \<Rightarrow> TileNumber \<Rightarrow> int \<Rightarrow> int \<Rightarrow> PartialUpdateRegion list \<Rightarrow>
     error + PartialUpdateRegion list" where
  "collect_chunk changed_chunks tile chunk_y chunk_x regions =
     (case is_chunk_dirty changed_chunks chunk_x chunk_y of
        Inl e \<Rightarrow> Inl e
      | Inr dirty \<Rightarrow>
          if \<not> dirty then Inr regions
          else Inr (regions @ [chunk_region tile chunk_x chunk_y]))"

text \<open>The body of the loop over the tiles of the image.\<close>

definition collect_tile ::
  "PartialUpdateRegisterImpl \<Rightarrow> ChangesetID \<Rightarrow> TileNumber \<Rightarrow> PartialUpdateRegion list \<Rightarrow>
     error + PartialUpdateRegion list" where
  "collect_tile partial_updater from_changeset tile regions =
     (case changed_tile_chunks_since partial_updater tile from_changeset of
        Inl e \<Rightarrow> Inl e
      | Inr changed_chunks \<Rightarrow>
          if \<not> has_dirty_chunks changed_chunks then Inr regions
          else foldE (\<lambda>chunk_y.
                        foldE (collect_chunk changed_chunks tile chunk_y)
                          [0..chunk_x_len changed_chunks - 1])
                 [0..chunk_y_len changed_chunks - 1] regions)"

text \<open>
  \<^verbatim>\<open>BKE_image_partial_update_collect_changes\<close> returns the result together with the image
  (whose register it may have made and changed) and the cursor. The assertion that the
  cursor belongs to the image compares two pointers and is compiled only under
  \<^verbatim>\<open>NDEBUG\<close>, where \<^verbatim>\<open>BLI_assert\<close> is empty; it has no part in the model.
\<close>

definition BKE_image_partial_update_collect_changes ::
  "Image \<Rightarrow> PartialUpdateUserImpl \<Rightarrow>
     error + (ePartialUpdateCollectResult \<times> Image \<times> PartialUpdateUserImpl)" where
  "BKE_image_partial_update_collect_changes img user =
     (let user1 = clear_updated_regions user
      in case ensure_empty_changeset (image_partial_update_register_ensure img) of
           Inl e \<Rightarrow> Inl e
         | Inr partial_updater \<Rightarrow>
             let img1 = img\<lparr>partial_update_register := Some partial_updater\<rparr>
             in if \<not> can_construct partial_updater (user_last_changeset_id user1) then
                  Inr (PARTIAL_UPDATE_NEED_FULL_UPDATE, img1,
                       user1\<lparr>user_last_changeset_id := last_changeset_id partial_updater\<rparr>)
                else if user_last_changeset_id user1 = last_changeset_id partial_updater then
                  Inr (PARTIAL_UPDATE_NO_CHANGES, img1, user1)
                else
                  (case foldE (collect_tile partial_updater (user_last_changeset_id user1))
                          (tiles img1) (updated_regions user1) of
                     Inl e \<Rightarrow> Inl e
                   | Inr regions \<Rightarrow>
                       Inr (PARTIAL_UPDATE_CHANGES_AVAILABLE, img1,
                            user1\<lparr>updated_regions := regions,
                                  user_last_changeset_id := last_changeset_id partial_updater\<rparr>)))"

text \<open>\<^verbatim>\<open>get_next_change\<close>: the region written to \<^verbatim>\<open>r_region\<close> is the third component.\<close>

definition BKE_image_partial_update_get_next_change ::
  "PartialUpdateUserImpl \<Rightarrow>
     ePartialUpdateIterResult \<times> PartialUpdateUserImpl \<times> PartialUpdateRegion option" where
  "BKE_image_partial_update_get_next_change user =
     (if updated_regions user = [] then (PARTIAL_UPDATE_ITER_FINISHED, user, None)
      else (PARTIAL_UPDATE_ITER_CHANGE_AVAILABLE,
            user\<lparr>updated_regions := butlast (updated_regions user)\<rparr>,
            Some (last (updated_regions user))))"

definition BKE_image_partial_update_register_free :: "Image \<Rightarrow> Image" where
  "BKE_image_partial_update_register_free img = img\<lparr>partial_update_register := None\<rparr>"

definition BKE_image_partial_update_mark_region :: "Image \<Rightarrow> ImBuf \<Rightarrow> rcti \<Rightarrow> error + Image" where
  "BKE_image_partial_update_mark_region img image_buffer updated_region =
     (case update_resolution image_buffer (image_partial_update_register_ensure img) of
        Inl e \<Rightarrow> Inl e
      | Inr r1 \<Rightarrow>
          (case mark_region updated_region r1 of
             Inl e \<Rightarrow> Inl e
           | Inr r2 \<Rightarrow> Inr (img\<lparr>partial_update_register := Some r2\<rparr>)))"

definition BKE_image_partial_update_mark_full_update :: "Image \<Rightarrow> error + Image" where
  "BKE_image_partial_update_mark_full_update img =
     (case mark_full_update (image_partial_update_register_ensure img) of
        Inl e \<Rightarrow> Inl e
      | Inr r \<Rightarrow> Inr (img\<lparr>partial_update_register := Some r\<rparr>))"

subsection \<open>Sequences of register operations\<close>

text \<open>
  The member functions that change a register, as values, so that a property can speak of
  every sequence of them. A sequence stops at the first operation that fails.
\<close>

datatype register_op =
  Mark_region rcti
| Mark_full_update
| Commit_current_changeset
| Ensure_empty_changeset
| Update_resolution ImBuf

fun apply_op :: "register_op \<Rightarrow> PartialUpdateRegisterImpl \<Rightarrow> error + PartialUpdateRegisterImpl" where
  "apply_op (Mark_region updated_region) r = mark_region updated_region r"
| "apply_op Mark_full_update r = mark_full_update r"
| "apply_op Commit_current_changeset r = commit_current_changeset r"
| "apply_op Ensure_empty_changeset r = ensure_empty_changeset r"
| "apply_op (Update_resolution image_buffer) r = update_resolution image_buffer r"

definition run_ops ::
  "register_op list \<Rightarrow> PartialUpdateRegisterImpl \<Rightarrow> error + PartialUpdateRegisterImpl" where
  "run_ops ops r = foldE apply_op ops r"

subsection \<open>Notions used to state the properties\<close>

text \<open>The flag of chunk \<open>(chunk_x, chunk_y)\<close>, row-major, without the range check.\<close>

definition dirty_at :: "TileChangeset \<Rightarrow> int \<Rightarrow> int \<Rightarrow> bool" where
  "dirty_at t chunk_x chunk_y \<longleftrightarrow> chunk_dirty_flags t ! nat (chunk_y * chunk_x_len t + chunk_x)"

text \<open>The data model's invariant of a tile changeset: one flag per chunk of the grid.\<close>

definition tile_sized :: "TileChangeset \<Rightarrow> bool" where
  "tile_sized t \<longleftrightarrow> int (length (chunk_dirty_flags t)) = chunk_x_len t * chunk_y_len t"

text \<open>
  A tile changeset of an \<open>x_len\<close> by \<open>y_len\<close> grid whose summary flag is set whenever a
  chunk flag is. (The converse is not an invariant of the code, see C2.)
\<close>

definition tile_ok :: "int \<Rightarrow> int \<Rightarrow> TileChangeset \<Rightarrow> bool" where
  "tile_ok x_len y_len t \<longleftrightarrow>
     chunk_x_len t = x_len \<and> chunk_y_len t = y_len \<and>
     int (length (chunk_dirty_flags t)) = x_len * y_len \<and>
     (True \<in> set (chunk_dirty_flags t) \<longrightarrow> has_dirty_chunks t)"

text \<open>The grid that \<^verbatim>\<open>update_resolution\<close> and \<^verbatim>\<open>changed_tile_chunks_since\<close> derive from the size.\<close>

definition grid_x_len :: "PartialUpdateRegisterImpl \<Rightarrow> int" where
  "grid_x_len r = image_width r sdiv CHUNK_SIZE"

definition grid_y_len :: "PartialUpdateRegisterImpl \<Rightarrow> int" where
  "grid_y_len r = image_height r sdiv CHUNK_SIZE"

text \<open>
  The invariant of a register: the current changeset and every changeset of the history
  are on the grid of the cached resolution, the changeset ids count the history, and no
  id is negative. Every register made by the operations above from a new one has it
  (\<open>run_ops_register_ok\<close>).
\<close>

definition register_ok :: "PartialUpdateRegisterImpl \<Rightarrow> bool" where
  "register_ok r \<longleftrightarrow>
     tile_ok (grid_x_len r) (grid_y_len r) (tile_changeset (current_changeset r)) \<and>
     (\<forall>cs\<in>set (history r). tile_ok (grid_x_len r) (grid_y_len r) (tile_changeset cs)) \<and>
     last_changeset_id r - first_changeset_id r = int (length (history r)) \<and>
     0 \<le> first_changeset_id r"

text \<open>
  Chunk \<open>(chunk_x, chunk_y)\<close> is dirty in an entry of the history at position \<open>index\<close> or
  later.
\<close>

definition dirty_from :: "PartialUpdateRegisterImpl \<Rightarrow> int \<Rightarrow> int \<Rightarrow> int \<Rightarrow> bool" where
  "dirty_from r index chunk_x chunk_y \<longleftrightarrow>
     (\<exists>j\<in>{nat index..<length (history r)}.
        dirty_at (tile_changeset (history r ! j)) chunk_x chunk_y)"

text \<open>
  Chunk \<open>(chunk_x, chunk_y)\<close> is dirty in a changeset committed after \<open>from_changeset\<close>:
  \<^verbatim>\<open>history[i]\<close> is the changeset with id \<^verbatim>\<open>first_changeset_id + i\<close>.
\<close>

definition dirty_since :: "PartialUpdateRegisterImpl \<Rightarrow> ChangesetID \<Rightarrow> int \<Rightarrow> int \<Rightarrow> bool" where
  "dirty_since r from_changeset chunk_x chunk_y \<longleftrightarrow>
     dirty_from r (from_changeset - first_changeset_id r) chunk_x chunk_y"

text \<open>
  The rectangle of chunk \<open>(chunk_x, chunk_y)\<close> of a tile, written out: 256 by 256 pixels
  from \<open>(256 * chunk_x, 256 * chunk_y)\<close>, the upper bounds excluded.
\<close>

definition chunk_rectangle :: "TileNumber \<Rightarrow> int \<Rightarrow> int \<Rightarrow> PartialUpdateRegion" where
  "chunk_rectangle tile chunk_x chunk_y =
     \<lparr>tile_number = tile,
      region = \<lparr>xmin = 256 * chunk_x, xmax = 256 * chunk_x + 256,
                ymin = 256 * chunk_y, ymax = 256 * chunk_y + 256\<rparr>\<rparr>"

text \<open>One rectangle for each dirty chunk of an \<open>x_len\<close> by \<open>y_len\<close> grid, row by row.\<close>

definition chunk_regions ::
  "(int \<Rightarrow> int \<Rightarrow> bool) \<Rightarrow> int \<Rightarrow> int \<Rightarrow> TileNumber \<Rightarrow> PartialUpdateRegion list" where
  "chunk_regions dirty x_len y_len tile =
     concat (map (\<lambda>chunk_y.
                    map (\<lambda>chunk_x. chunk_rectangle tile chunk_x chunk_y)
                      (filter (\<lambda>chunk_x. dirty chunk_x chunk_y) [0..x_len - 1]))
               [0..y_len - 1])"

definition regions_from ::
  "PartialUpdateRegisterImpl \<Rightarrow> int \<Rightarrow> TileNumber \<Rightarrow> PartialUpdateRegion list" where
  "regions_from r index tile =
     chunk_regions (dirty_from r index) (grid_x_len r) (grid_y_len r) tile"

definition regions_since ::
  "PartialUpdateRegisterImpl \<Rightarrow> ChangesetID \<Rightarrow> TileNumber \<Rightarrow> PartialUpdateRegion list" where
  "regions_since r from_changeset tile =
     chunk_regions (dirty_since r from_changeset) (grid_x_len r) (grid_y_len r) tile"

text \<open>
  A resolution whose grid has a length: \<^verbatim>\<open>init_chunks\<close> fails on the others. Every
  image buffer with a non-negative width and height is one (\<open>resolution_ok_nonneg\<close>).
\<close>

definition resolution_ok :: "ImBuf \<Rightarrow> bool" where
  "resolution_ok image_buffer \<longleftrightarrow>
     0 \<le> (imbuf_x image_buffer sdiv CHUNK_SIZE) * (imbuf_y image_buffer sdiv CHUNK_SIZE)"

fun op_ok :: "register_op \<Rightarrow> bool" where
  "op_ok (Update_resolution image_buffer) = resolution_ok image_buffer"
| "op_ok _ = True"

text \<open>
  The equivalence of C2 for one changeset and for a register, and the rectangles that are
  not empty: those for which it is kept (\<open>run_ops_exact\<close>).
\<close>

definition tile_exact :: "TileChangeset \<Rightarrow> bool" where
  "tile_exact t \<longleftrightarrow> has_dirty_chunks t = (True \<in> set (chunk_dirty_flags t))"

definition register_exact :: "PartialUpdateRegisterImpl \<Rightarrow> bool" where
  "register_exact r \<longleftrightarrow>
     tile_exact (tile_changeset (current_changeset r)) \<and>
     (\<forall>cs\<in>set (history r). tile_exact (tile_changeset cs))"

definition region_nonempty :: "rcti \<Rightarrow> bool" where
  "region_nonempty updated_region \<longleftrightarrow>
     xmin updated_region < xmax updated_region \<and> ymin updated_region < ymax updated_region"

fun op_nonempty :: "register_op \<Rightarrow> bool" where
  "op_nonempty (Mark_region updated_region) = region_nonempty updated_region"
| "op_nonempty _ = True"

subsection \<open>Concrete inputs\<close>

text \<open>Square images, grids and registers, written short for the scenarios below.\<close>

definition image_buffer_of :: "int \<Rightarrow> ImBuf" where
  "image_buffer_of side = \<lparr>imbuf_x = side, imbuf_y = side\<rparr>"

definition tile_of :: "int \<Rightarrow> bool list \<Rightarrow> bool \<Rightarrow> TileChangeset" where
  "tile_of len flags dirty =
     \<lparr>chunk_dirty_flags = flags, has_dirty_chunks = dirty, chunk_x_len = len, chunk_y_len = len\<rparr>"

definition register_of ::
  "int \<Rightarrow> ChangesetID \<Rightarrow> ChangesetID \<Rightarrow> TileChangeset list \<Rightarrow> TileChangeset \<Rightarrow>
     PartialUpdateRegisterImpl" where
  "register_of side first_id last_id committed current =
     \<lparr>first_changeset_id = first_id, last_changeset_id = last_id,
      history = map (\<lambda>t. \<lparr>tile_changeset = t\<rparr>) committed,
      current_changeset = \<lparr>tile_changeset = current\<rparr>,
      image_width = side, image_height = side\<rparr>"

text \<open>An image of one tile, number 1001, without a register and with one.\<close>

definition example_image :: Image where
  "example_image = \<lparr>tiles = [1001], partial_update_register = None\<rparr>"

definition image_of :: "PartialUpdateRegisterImpl \<Rightarrow> Image" where
  "image_of r = \<lparr>tiles = [1001], partial_update_register = Some r\<rparr>"

text \<open>A cursor that has seen changeset \<open>changeset_id\<close> and holds no regions.\<close>

definition user_synced :: "ChangesetID \<Rightarrow> PartialUpdateUserImpl" where
  "user_synced changeset_id = \<lparr>user_last_changeset_id = changeset_id, updated_regions = []\<rparr>"

text \<open>A new cursor that still holds a region of an earlier collection.\<close>

definition stale_user :: PartialUpdateUserImpl where
  "stale_user =
     \<lparr>user_last_changeset_id = UnknownChangesetID, updated_regions = [chunk_region 1001 0 0]\<rparr>"

section \<open>Properties\<close>

subsection \<open>Loops\<close>

lemma foldE_append:
  "foldE f (as @ bs) s = (case foldE f as s of Inl e \<Rightarrow> Inl e | Inr s' \<Rightarrow> foldE f bs s')"
  by (induction as arbitrary: s) (auto split: sum.splits)

subsection \<open>init_chunks and reset\<close>

lemma clear_loop:
  "fold (\<lambda>index fs. fs[index := False]) [0..<k] fs =
     replicate (min k (length fs)) False @ drop k fs"
proof (induction k)
  case 0
  then show ?case by simp
next
  case (Suc k)
  show ?case
  proof (cases "k < length fs")
    case True
    then have "(replicate k False @ drop k fs)[k := False] = replicate (Suc k) False @ drop (Suc k) fs"
      by (simp add: list_update_append replicate_append_same upd_conv_take_nth_drop Cons_nth_drop_Suc [symmetric])
    with True show ?thesis using Suc by (simp add: min_def)
  next
    case False
    then show ?thesis using Suc by (simp add: min_def list_update_beyond)
  qed
qed

lemma resize_clean:
  "True \<notin> set fs \<Longrightarrow> resize n fs = replicate n False"
proof -
  assume a: "True \<notin> set fs"
  then have "fs = replicate (length fs) False"
    by (metis (full_types) replicate_length_same)
  then obtain m where "fs = replicate m False" ..
  then show ?thesis by (auto simp: resize_def min_def replicate_add [symmetric])
qed

lemma init_chunks_ok:
  assumes "0 \<le> x_len * y_len"
    and "True \<in> set (chunk_dirty_flags t) \<longrightarrow> has_dirty_chunks t"
  shows "init_chunks x_len y_len t =
           Inr \<lparr>chunk_dirty_flags = replicate (nat (x_len * y_len)) False,
                has_dirty_chunks = False, chunk_x_len = x_len, chunk_y_len = y_len\<rparr>"
proof (cases "has_dirty_chunks t")
  case False
  with assms(2) have "True \<notin> set (chunk_dirty_flags t)" by blast
  then show ?thesis using assms(1) False
    by (simp add: init_chunks_def Let_def resize_clean)
next
  case True
  let ?n = "nat (x_len * y_len)"
  let ?fs = "chunk_dirty_flags t"
  have "replicate (min (nat (min (x_len * y_len) (int (length ?fs)))) (length (resize ?n ?fs))) False
          @ drop (nat (min (x_len * y_len) (int (length ?fs)))) (resize ?n ?fs)
        = replicate ?n False"
    using assms(1)
    by (cases "?n \<le> length ?fs") (auto simp: resize_def min_def replicate_add [symmetric] nat_le_iff)
  then show ?thesis using assms(1) True
    by (simp add: init_chunks_def Let_def clear_loop)
qed

lemma init_chunks_error:
  "x_len * y_len < 0 \<Longrightarrow> init_chunks x_len y_len t = Inl LengthError"
  by (simp add: init_chunks_def)

lemma tile_ok_nonneg: "tile_ok X Y t \<Longrightarrow> 0 \<le> X * Y"
  by (auto simp: tile_ok_def)

lemma tile_ok_clean: "0 \<le> X * Y \<Longrightarrow>
  tile_ok X Y \<lparr>chunk_dirty_flags = replicate (nat (X * Y)) False,
                has_dirty_chunks = False, chunk_x_len = X, chunk_y_len = Y\<rparr>"
  by (simp add: tile_ok_def)

lemma reset_ok:
  assumes "tile_ok X Y t"
  shows "reset t = Inr \<lparr>chunk_dirty_flags = replicate (nat (X * Y)) False,
                has_dirty_chunks = False, chunk_x_len = X, chunk_y_len = Y\<rparr>"
  using assms init_chunks_ok [of X Y t] by (simp add: reset_def tile_ok_def)

lemma reset_moved_from:
  assumes "tile_ok X Y t"
  shows "reset (moved_from t) = Inr \<lparr>chunk_dirty_flags = replicate (nat (X * Y)) False,
                has_dirty_chunks = False, chunk_x_len = X, chunk_y_len = Y\<rparr>"
  using assms init_chunks_ok [of X Y "moved_from t"]
  by (simp add: reset_def tile_ok_def moved_from_def)

subsection \<open>Chunk indices\<close>

lemma chunk_index_bounds:
  fixes x y X Y :: int
  assumes "0 \<le> x" "x < X" "0 \<le> y" "y < Y"
  shows "0 \<le> y * X + x" and "y * X + x < X * Y"
proof -
  from assms show "0 \<le> y * X + x" by simp
  have "y * X + x < y * X + X" using assms by simp
  also have "\<dots> = (y + 1) * X" by (simp add: algebra_simps)
  also have "\<dots> \<le> Y * X" using assms by (intro mult_right_mono) auto
  finally show "y * X + x < X * Y" by (simp add: mult.commute)
qed

lemma chunk_index_inj:
  fixes x y x' y' X :: int
  assumes "0 \<le> x" "x < X" "0 \<le> x'" "x' < X" "y * X + x = y' * X + x'"
  shows "x = x' \<and> y = y'"
proof -
  have "X \<noteq> 0" using assms by auto
  then have "(y * X + x) div X = y + x div X" "(y' * X + x') div X = y' + x' div X"
    by simp_all
  moreover have "x div X = 0" "x' div X = 0"
    using assms by (simp_all add: div_pos_pos_trivial)
  ultimately have "y = y'" using assms(5) by simp
  with assms(5) show ?thesis by simp
qed

lemma is_chunk_dirty_ok:
  assumes "int (length (chunk_dirty_flags t)) = chunk_x_len t * chunk_y_len t"
    and "0 \<le> x" "x < chunk_x_len t" "0 \<le> y" "y < chunk_y_len t"
  shows "is_chunk_dirty t x y = Inr (dirty_at t x y)"
  using chunk_index_bounds [OF assms(2-5)] assms(1)
  by (simp add: is_chunk_dirty_def dirty_at_def)

subsection \<open>mark_chunks_dirty\<close>

lemma foldE_set_dirty:
  assumes "\<forall>a\<in>set as. 0 \<le> g a \<and> g a < int (length fs)"
  shows "\<exists>fs'. foldE (\<lambda>a. set_dirty (g a)) as fs = Inr fs' \<and> length fs' = length fs \<and>
           (\<forall>i<length fs. fs' ! i = (fs ! i \<or> (\<exists>a\<in>set as. i = nat (g a))))"
  using assms
proof (induction as arbitrary: fs)
  case Nil
  then show ?case by simp
next
  case (Cons a as)
  let ?fs1 = "fs[nat (g a) := True]"
  have step: "set_dirty (g a) fs = Inr ?fs1"
    using Cons.prems by (simp add: set_dirty_def)
  have "\<forall>b\<in>set as. 0 \<le> g b \<and> g b < int (length ?fs1)"
    using Cons.prems by simp
  from Cons.IH [OF this] obtain fs' where fs':
    "foldE (\<lambda>a. set_dirty (g a)) as ?fs1 = Inr fs'" "length fs' = length ?fs1"
    "\<forall>i<length ?fs1. fs' ! i = (?fs1 ! i \<or> (\<exists>b\<in>set as. i = nat (g b)))"
    by blast
  have "nat (g a) < length fs"
    using Cons.prems by (simp add: nat_less_iff)
  then have "\<forall>i<length fs. fs' ! i = (fs ! i \<or> (\<exists>b\<in>set (a # as). i = nat (g b)))"
    using fs'(3) by (auto simp: nth_list_update)
  with step fs'(1,2) show ?case by simp
qed

lemma foldE_set_dirty2:
  assumes "\<forall>b\<in>set bs. \<forall>a\<in>set as. 0 \<le> g b a \<and> g b a < int (length fs)"
  shows "\<exists>fs'. foldE (\<lambda>b. foldE (\<lambda>a. set_dirty (g b a)) as) bs fs = Inr fs' \<and>
           length fs' = length fs \<and>
           (\<forall>i<length fs. fs' ! i = (fs ! i \<or> (\<exists>b\<in>set bs. \<exists>a\<in>set as. i = nat (g b a))))"
  using assms
proof (induction bs arbitrary: fs)
  case Nil
  then show ?case by simp
next
  case (Cons b bs)
  have "\<forall>a\<in>set as. 0 \<le> g b a \<and> g b a < int (length fs)"
    using Cons.prems by simp
  from foldE_set_dirty [OF this] obtain fs1 where fs1:
    "foldE (\<lambda>a. set_dirty (g b a)) as fs = Inr fs1" "length fs1 = length fs"
    "\<forall>i<length fs. fs1 ! i = (fs ! i \<or> (\<exists>a\<in>set as. i = nat (g b a)))"
    by blast
  have "\<forall>c\<in>set bs. \<forall>a\<in>set as. 0 \<le> g c a \<and> g c a < int (length fs1)"
    using Cons.prems fs1(2) by simp
  from Cons.IH [OF this] obtain fs' where fs':
    "foldE (\<lambda>b. foldE (\<lambda>a. set_dirty (g b a)) as) bs fs1 = Inr fs'" "length fs' = length fs1"
    "\<forall>i<length fs1. fs' ! i = (fs1 ! i \<or> (\<exists>c\<in>set bs. \<exists>a\<in>set as. i = nat (g c a)))"
    by blast
  have "\<forall>i<length fs. fs' ! i = (fs ! i \<or> (\<exists>c\<in>set (b # bs). \<exists>a\<in>set as. i = nat (g c a)))"
    using fs'(3) fs1(2,3) by auto
  with fs1(1,2) fs'(1,2) show ?case by simp
qed

lemma mark_chunks_dirty_ok:
  assumes ok: "tile_ok X Y t"
    and range: "0 \<le> sx" "ex < X" "0 \<le> sy" "ey < Y"
  shows "\<exists>t'. mark_chunks_dirty sx sy ex ey t = Inr t' \<and> tile_ok X Y t' \<and> has_dirty_chunks t' \<and>
           (\<forall>x y. 0 \<le> x \<and> x < X \<and> 0 \<le> y \<and> y < Y \<longrightarrow>
              dirty_at t' x y = (dirty_at t x y \<or> (sx \<le> x \<and> x \<le> ex \<and> sy \<le> y \<and> y \<le> ey)))"
proof -
  let ?fs = "chunk_dirty_flags t"
  let ?g = "\<lambda>chunk_y chunk_x. chunk_y * chunk_x_len t + chunk_x"
  from ok have X: "chunk_x_len t = X" and Y: "chunk_y_len t = Y"
    and len: "int (length ?fs) = X * Y"
    by (simp_all add: tile_ok_def)
  have "\<forall>b\<in>set [sy..ey]. \<forall>a\<in>set [sx..ex]. 0 \<le> ?g b a \<and> ?g b a < int (length ?fs)"
    using chunk_index_bounds [of _ X _ Y] range by (simp add: X len)
  from foldE_set_dirty2 [of "[sy..ey]" "[sx..ex]" ?g, OF this] obtain fs' where fs':
    "foldE (\<lambda>b. foldE (\<lambda>a. set_dirty (?g b a)) [sx..ex]) [sy..ey] ?fs = Inr fs'"
    "length fs' = length ?fs"
    "\<forall>i<length ?fs. fs' ! i = (?fs ! i \<or> (\<exists>b\<in>set [sy..ey]. \<exists>a\<in>set [sx..ex]. i = nat (?g b a)))"
    by blast
  let ?t' = "t\<lparr>chunk_dirty_flags := fs', has_dirty_chunks := True\<rparr>"
  have res: "mark_chunks_dirty sx sy ex ey t = Inr ?t'"
    using fs'(1) by (simp add: mark_chunks_dirty_def)
  have ok': "tile_ok X Y ?t'"
    using ok fs'(2) by (simp add: tile_ok_def)
  have "dirty_at ?t' x y = (dirty_at t x y \<or> (sx \<le> x \<and> x \<le> ex \<and> sy \<le> y \<and> y \<le> ey))"
    if xy: "0 \<le> x" "x < X" "0 \<le> y" "y < Y" for x y
  proof -
    have b: "0 \<le> y * X + x" "y * X + x < X * Y"
      using chunk_index_bounds [OF xy] by simp_all
    then have "nat (y * X + x) < length ?fs" using len by linarith
    with fs'(3) have "fs' ! nat (y * X + x) =
        (?fs ! nat (y * X + x) \<or> (\<exists>b\<in>set [sy..ey]. \<exists>a\<in>set [sx..ex]. nat (y * X + x) = nat (b * X + a)))"
      by (simp add: X)
    moreover have "(\<exists>b\<in>set [sy..ey]. \<exists>a\<in>set [sx..ex]. nat (y * X + x) = nat (b * X + a))
        \<longleftrightarrow> (sx \<le> x \<and> x \<le> ex \<and> sy \<le> y \<and> y \<le> ey)" (is "?L \<longleftrightarrow> ?R")
    proof
      assume ?L
      then obtain b a where ba: "sy \<le> b" "b \<le> ey" "sx \<le> a" "a \<le> ex"
        "nat (y * X + x) = nat (b * X + a)" by auto
      have "0 \<le> b * X + a" using ba range xy by simp
      with ba(5) b(1) have "y * X + x = b * X + a" by linarith
      from chunk_index_inj [OF xy(1,2) _ _ this] ba range have "x = a \<and> y = b" by simp
      with ba show ?R by simp
    next
      assume ?R
      then have "y \<in> set [sy..ey]" "x \<in> set [sx..ex]" by simp_all
      then show ?L by blast
    qed
    ultimately show ?thesis by (simp add: dirty_at_def X)
  qed
  with res ok' show ?thesis by auto
qed

subsection \<open>merge\<close>

lemma foldE_merge_flag:
  assumes "n \<le> length fs" "n \<le> length ofs"
  shows "\<exists>fs'. foldE (merge_flag ofs) [0..<n] fs = Inr fs' \<and> length fs' = length fs \<and>
           (\<forall>i<length fs. fs' ! i = (if i < n then fs ! i \<or> ofs ! i else fs ! i))"
  using assms
proof (induction n)
  case 0
  then show ?case by simp
next
  case (Suc n)
  then obtain fs1 where fs1: "foldE (merge_flag ofs) [0..<n] fs = Inr fs1"
    "length fs1 = length fs"
    "\<forall>i<length fs. fs1 ! i = (if i < n then fs ! i \<or> ofs ! i else fs ! i)"
    by auto
  let ?fs' = "fs1[n := fs1 ! n \<or> ofs ! n]"
  have step: "merge_flag ofs n fs1 = Inr ?fs'"
    using Suc.prems fs1(2) by (simp add: merge_flag_def)
  have "foldE (merge_flag ofs) [0..<Suc n] fs = Inr ?fs'"
    using fs1(1) step by (simp add: foldE_append)
  moreover have "\<forall>i<length fs. ?fs' ! i = (if i < Suc n then fs ! i \<or> ofs ! i else fs ! i)"
    using fs1(2,3) Suc.prems by (auto simp: nth_list_update less_Suc_eq)
  ultimately show ?case using fs1(2) by simp
qed

lemma merge_sized:
  assumes "tile_sized a" "tile_sized b"
    and "chunk_x_len a = chunk_x_len b" "chunk_y_len a = chunk_y_len b"
  shows "merge a b =
           Inr (a\<lparr>chunk_dirty_flags := map2 (\<or>) (chunk_dirty_flags a) (chunk_dirty_flags b),
                  has_dirty_chunks := (has_dirty_chunks a \<or> has_dirty_chunks b)\<rparr>)"
proof -
  let ?n = "nat (chunk_x_len a * chunk_y_len a)"
  let ?fa = "chunk_dirty_flags a" and ?fb = "chunk_dirty_flags b"
  have la: "length ?fa = ?n" and lb: "length ?fb = ?n"
    using assms by (simp_all add: tile_sized_def)
  from foldE_merge_flag [of ?n ?fa ?fb] obtain fs' where fs':
    "foldE (merge_flag ?fb) [0..<?n] ?fa = Inr fs'" "length fs' = length ?fa"
    "\<forall>i<length ?fa. fs' ! i = (if i < ?n then ?fa ! i \<or> ?fb ! i else ?fa ! i)"
    using la lb by auto
  have "fs' = map2 (\<or>) ?fa ?fb"
    using fs'(2,3) la lb by (intro nth_equalityI) simp_all
  then show ?thesis using fs'(1) assms(3,4) by (simp add: merge_def)
qed

lemma True_in_map2_or:
  "length fa = length fb \<Longrightarrow>
     True \<in> set (map2 (\<or>) fa fb) \<longleftrightarrow> True \<in> set fa \<or> True \<in> set fb"
  by (induction fa fb rule: list_induct2) auto

lemma merge_ok:
  assumes "tile_ok X Y a" "tile_ok X Y b"
  shows "\<exists>c. merge a b = Inr c \<and> tile_ok X Y c \<and>
           has_dirty_chunks c = (has_dirty_chunks a \<or> has_dirty_chunks b) \<and>
           chunk_dirty_flags c = map2 (\<or>) (chunk_dirty_flags a) (chunk_dirty_flags b)"
proof -
  have s: "tile_sized a" "tile_sized b" "chunk_x_len a = chunk_x_len b"
    "chunk_y_len a = chunk_y_len b"
    using assms by (simp_all add: tile_ok_def tile_sized_def)
  have len: "length (chunk_dirty_flags a) = length (chunk_dirty_flags b)"
    using assms by (simp add: tile_ok_def)
  show ?thesis
    using assms True_in_map2_or [OF len] len
    by (auto simp: merge_sized [OF s] tile_ok_def)
qed

lemma foldE_merge_history:
  assumes "tile_ok X Y c"
    and "\<forall>j\<in>set js. 0 \<le> j \<and> j < int (length h)"
    and "\<forall>cs\<in>set h. tile_ok X Y (tile_changeset cs)"
  shows "\<exists>c'. foldE (merge_history h) js c = Inr c' \<and> tile_ok X Y c' \<and>
           has_dirty_chunks c' =
             (has_dirty_chunks c \<or> (\<exists>j\<in>set js. has_dirty_chunks (tile_changeset (h ! nat j)))) \<and>
           (\<forall>i<length (chunk_dirty_flags c).
              chunk_dirty_flags c' ! i =
                (chunk_dirty_flags c ! i \<or>
                 (\<exists>j\<in>set js. chunk_dirty_flags (tile_changeset (h ! nat j)) ! i)))"
  using assms(1,2)
proof (induction js arbitrary: c)
  case Nil
  then show ?case by simp
next
  case (Cons j js)
  let ?b = "tile_changeset (h ! nat j)"
  have j: "0 \<le> j" "j < int (length h)" using Cons.prems(2) by simp_all
  then have "h ! nat j \<in> set h" by (simp add: nat_less_iff)
  with assms(3) have b: "tile_ok X Y ?b" by blast
  from merge_ok [OF Cons.prems(1) b] obtain c1 where c1:
    "merge c ?b = Inr c1" "tile_ok X Y c1"
    "has_dirty_chunks c1 = (has_dirty_chunks c \<or> has_dirty_chunks ?b)"
    "chunk_dirty_flags c1 = map2 (\<or>) (chunk_dirty_flags c) (chunk_dirty_flags ?b)"
    by blast
  have step: "merge_history h j c = Inr c1"
    using j c1(1) by (simp add: merge_history_def)
  have len: "length (chunk_dirty_flags c) = length (chunk_dirty_flags ?b)"
    "length (chunk_dirty_flags c1) = length (chunk_dirty_flags c)"
    using Cons.prems(1) b c1(2) by (simp_all add: tile_ok_def)
  have "\<forall>k\<in>set js. 0 \<le> k \<and> k < int (length h)" using Cons.prems(2) by simp
  from Cons.IH [OF c1(2) this] obtain c' where c':
    "foldE (merge_history h) js c1 = Inr c'" "tile_ok X Y c'"
    "has_dirty_chunks c' =
       (has_dirty_chunks c1 \<or> (\<exists>k\<in>set js. has_dirty_chunks (tile_changeset (h ! nat k))))"
    "\<forall>i<length (chunk_dirty_flags c1).
       chunk_dirty_flags c' ! i =
         (chunk_dirty_flags c1 ! i \<or>
          (\<exists>k\<in>set js. chunk_dirty_flags (tile_changeset (h ! nat k)) ! i))"
    by blast
  have "\<forall>i<length (chunk_dirty_flags c).
       chunk_dirty_flags c' ! i =
         (chunk_dirty_flags c ! i \<or>
          (\<exists>k\<in>set (j # js). chunk_dirty_flags (tile_changeset (h ! nat k)) ! i))"
    using c'(4) c1(4) len by auto
  with step c'(1,2,3) c1(3) show ?case by auto
qed

subsection \<open>The register invariant\<close>

lemma register_ok_new: "register_ok PartialUpdateRegisterImpl_new"
  by (simp add: register_ok_def PartialUpdateRegisterImpl_new_def TileChangeset_new_def
      tile_ok_def grid_x_len_def grid_y_len_def CHUNK_SIZE_def signed_divide_int_def)

lemma register_ok_last: "register_ok r \<Longrightarrow> 0 \<le> last_changeset_id r"
  by (simp add: register_ok_def)

lemma mark_full_update_ok:
  assumes t: "tile_ok (grid_x_len r) (grid_y_len r) (tile_changeset (current_changeset r))"
    and l: "0 \<le> last_changeset_id r"
  shows "\<exists>r'. mark_full_update r = Inr r' \<and> register_ok r' \<and> history r' = [] \<and>
           first_changeset_id r' = last_changeset_id r + 1 \<and>
           last_changeset_id r' = last_changeset_id r + 1 \<and>
           \<not> has_dirty_chunks (tile_changeset (current_changeset r')) \<and>
           image_width r' = image_width r \<and> image_height r' = image_height r"
  using reset_ok [OF t] tile_ok_clean [OF tile_ok_nonneg [OF t]] l
  by (simp add: mark_full_update_def set_current_def register_ok_def grid_x_len_def grid_y_len_def)

lemma commit_current_changeset_ok:
  assumes "register_ok r"
  shows "\<exists>r'. commit_current_changeset r = Inr r' \<and> register_ok r' \<and>
           history r' = history r @ [current_changeset r] \<and>
           first_changeset_id r' = first_changeset_id r \<and>
           last_changeset_id r' = last_changeset_id r + 1 \<and>
           \<not> has_dirty_chunks (tile_changeset (current_changeset r')) \<and>
           image_width r' = image_width r \<and> image_height r' = image_height r"
proof -
  let ?X = "grid_x_len r" and ?Y = "grid_y_len r"
  from assms have t: "tile_ok ?X ?Y (tile_changeset (current_changeset r))"
    and h: "\<forall>cs\<in>set (history r). tile_ok ?X ?Y (tile_changeset cs)"
    and f: "0 \<le> first_changeset_id r"
    and l: "last_changeset_id r - first_changeset_id r = int (length (history r))"
    by (simp_all add: register_ok_def)
  show ?thesis
    using reset_moved_from [OF t] tile_ok_clean [OF tile_ok_nonneg [OF t]] t h f l
    by (simp add: commit_current_changeset_def set_current_def register_ok_def
        grid_x_len_def grid_y_len_def)
qed

lemma ensure_empty_changeset_ok:
  assumes "register_ok r"
  shows "\<exists>r'. ensure_empty_changeset r = Inr r' \<and> register_ok r' \<and>
           \<not> has_dirty_chunks (tile_changeset (current_changeset r')) \<and>
           first_changeset_id r' = first_changeset_id r \<and>
           image_width r' = image_width r \<and> image_height r' = image_height r \<and>
           (if has_dirty_chunks (tile_changeset (current_changeset r))
            then history r' = history r @ [current_changeset r] \<and>
                 last_changeset_id r' = last_changeset_id r + 1
            else r' = r)"
  using assms commit_current_changeset_ok [OF assms]
  by (auto simp: ensure_empty_changeset_def)

lemma update_resolution_ok:
  assumes "register_ok r"
    and "0 \<le> (imbuf_x image_buffer sdiv CHUNK_SIZE) * (imbuf_y image_buffer sdiv CHUNK_SIZE)"
  shows "\<exists>r'. update_resolution image_buffer r = Inr r' \<and> register_ok r' \<and>
           image_width r' = imbuf_x image_buffer \<and> image_height r' = imbuf_y image_buffer"
proof (cases "image_width r \<noteq> imbuf_x image_buffer \<or> image_height r \<noteq> imbuf_y image_buffer")
  case False
  then show ?thesis using assms(1) by (simp add: update_resolution_def)
next
  case True
  let ?X = "imbuf_x image_buffer sdiv CHUNK_SIZE" and ?Y = "imbuf_y image_buffer sdiv CHUNK_SIZE"
  let ?t = "\<lparr>chunk_dirty_flags = replicate (nat (?X * ?Y)) False,
                has_dirty_chunks = False, chunk_x_len = ?X, chunk_y_len = ?Y\<rparr>"
  let ?r2 = "set_current ?t
      (r\<lparr>image_width := imbuf_x image_buffer, image_height := imbuf_y image_buffer\<rparr>)"
  from assms(1) have t: "True \<in> set (chunk_dirty_flags (tile_changeset (current_changeset r)))
      \<longrightarrow> has_dirty_chunks (tile_changeset (current_changeset r))"
    and f: "0 \<le> first_changeset_id r"
    and l: "last_changeset_id r - first_changeset_id r = int (length (history r))"
    by (simp_all add: register_ok_def tile_ok_def)
  have ic: "init_chunks ?X ?Y (tile_changeset (current_changeset r)) = Inr ?t"
    by (rule init_chunks_ok [OF assms(2) t])
  show ?thesis
  proof (cases "history r = []")
    case True
    have "update_resolution image_buffer r = Inr ?r2"
      using \<open>image_width r \<noteq> imbuf_x image_buffer \<or> image_height r \<noteq> imbuf_y image_buffer\<close> ic True
      by (simp add: update_resolution_def Let_def set_current_def)
    moreover have "register_ok ?r2"
      using True f l tile_ok_clean [OF assms(2)]
      by (simp add: register_ok_def set_current_def grid_x_len_def grid_y_len_def)
    ultimately show ?thesis by (simp add: set_current_def)
  next
    case False
    have t2: "tile_ok (grid_x_len ?r2) (grid_y_len ?r2) (tile_changeset (current_changeset ?r2))"
      using tile_ok_clean [OF assms(2)]
      by (simp add: set_current_def grid_x_len_def grid_y_len_def)
    have l2: "0 \<le> last_changeset_id ?r2"
      using register_ok_last [OF assms(1)] by (simp add: set_current_def)
    have "update_resolution image_buffer r = mark_full_update ?r2"
      using \<open>image_width r \<noteq> imbuf_x image_buffer \<or> image_height r \<noteq> imbuf_y image_buffer\<close> ic False
      by (simp add: update_resolution_def Let_def set_current_def)
    with mark_full_update_ok [OF t2 l2] show ?thesis
      by (auto simp: set_current_def)
  qed
qed

lemma mark_region_ok:
  assumes "register_ok r"
  shows "\<exists>r'. mark_region updated_region r = Inr r' \<and> register_ok r' \<and>
           history r' = history r \<and> first_changeset_id r' = first_changeset_id r \<and>
           last_changeset_id r' = last_changeset_id r \<and>
           image_width r' = image_width r \<and> image_height r' = image_height r"
proof -
  let ?X = "grid_x_len r" and ?Y = "grid_y_len r"
  let ?t = "tile_changeset (current_changeset r)"
  from assms have t: "tile_ok ?X ?Y ?t" by (simp add: register_ok_def)
  then have X: "chunk_x_len ?t = ?X" and Y: "chunk_y_len ?t = ?Y" by (simp_all add: tile_ok_def)
  let ?sx = "max 0 (chunk_number_for_pixel (xmin updated_region))"
  let ?sy = "max 0 (chunk_number_for_pixel (ymin updated_region))"
  let ?ex = "min (?X - 1) (chunk_number_for_pixel (xmax updated_region - 1))"
  let ?ey = "min (?Y - 1) (chunk_number_for_pixel (ymax updated_region - 1))"
  have "0 \<le> ?sx" "?ex < ?X" "0 \<le> ?sy" "?ey < ?Y" by simp_all
  from mark_chunks_dirty_ok [OF t this] obtain t' where
    t': "mark_chunks_dirty ?sx ?sy ?ex ?ey ?t = Inr t'" "tile_ok ?X ?Y t'"
    by blast
  have "register_ok (set_current t' r)"
    using assms t'(2) by (simp add: register_ok_def set_current_def grid_x_len_def grid_y_len_def)
  then show ?thesis
    using assms t'(1) by (simp add: mark_region_def Let_def X Y set_current_def)
qed

lemma int64_to_int_id:
  "- 2147483648 \<le> k \<Longrightarrow> k < 2147483648 \<Longrightarrow> int64_to_int k = k"
  by (simp add: int64_to_int_def)

lemma changed_tile_chunks_since_ok:
  assumes ok: "register_ok r"
    and idx: "0 \<le> int64_to_int (from_changeset - first_changeset_id r)"
  shows "\<exists>c. changed_tile_chunks_since r tile from_changeset = Inr c \<and>
           tile_ok (grid_x_len r) (grid_y_len r) c \<and>
           (\<forall>x y. 0 \<le> x \<and> x < grid_x_len r \<and> 0 \<le> y \<and> y < grid_y_len r \<longrightarrow>
              dirty_at c x y =
                dirty_from r (int64_to_int (from_changeset - first_changeset_id r)) x y)"
proof -
  let ?X = "grid_x_len r" and ?Y = "grid_y_len r" and ?h = "history r"
  let ?k = "int64_to_int (from_changeset - first_changeset_id r)"
  let ?c0 = "\<lparr>chunk_dirty_flags = replicate (nat (?X * ?Y)) False,
                has_dirty_chunks = False, chunk_x_len = ?X, chunk_y_len = ?Y\<rparr>"
  let ?js = "[?k..int (length ?h) - 1]"
  from ok have h: "\<forall>cs\<in>set ?h. tile_ok ?X ?Y (tile_changeset cs)"
    and nn: "0 \<le> ?X * ?Y"
    by (auto simp: register_ok_def dest: tile_ok_nonneg)
  have ic: "init_chunks ?X ?Y TileChangeset_new = Inr ?c0"
    using init_chunks_ok [OF nn, of TileChangeset_new] by (simp add: TileChangeset_new_def)
  have js: "\<forall>j\<in>set ?js. 0 \<le> j \<and> j < int (length ?h)"
    using idx by auto
  from foldE_merge_history [OF tile_ok_clean [OF nn] js h] obtain c where c:
    "foldE (merge_history ?h) ?js ?c0 = Inr c" "tile_ok ?X ?Y c"
    "\<forall>i<length (chunk_dirty_flags ?c0).
       chunk_dirty_flags c ! i =
         (chunk_dirty_flags ?c0 ! i \<or>
          (\<exists>j\<in>set ?js. chunk_dirty_flags (tile_changeset (?h ! nat j)) ! i))"
    by blast
  have res: "changed_tile_chunks_since r tile from_changeset = Inr c"
    using ic c(1) by (simp add: changed_tile_chunks_since_def Let_def grid_x_len_def grid_y_len_def)
  have "dirty_at c x y = dirty_from r ?k x y"
    if xy: "0 \<le> x" "x < ?X" "0 \<le> y" "y < ?Y" for x y
  proof -
    let ?i = "nat (y * ?X + x)"
    have "?i < nat (?X * ?Y)"
      using chunk_index_bounds [OF xy] by simp
    with c(3) have "chunk_dirty_flags c ! ?i =
        (\<exists>j\<in>set ?js. chunk_dirty_flags (tile_changeset (?h ! nat j)) ! ?i)"
      by simp
    also have "\<dots> = (\<exists>j\<in>{nat ?k..<length ?h}.
          chunk_dirty_flags (tile_changeset (?h ! j)) ! ?i)" (is "?L = ?R")
    proof
      assume ?L
      then obtain j where j: "?k \<le> j" "j \<le> int (length ?h) - 1"
        "chunk_dirty_flags (tile_changeset (?h ! nat j)) ! ?i" by auto
      then have "nat j \<in> {nat ?k..<length ?h}"
        using idx by auto
      with j(3) show ?R by blast
    next
      assume ?R
      then obtain j where j: "nat ?k \<le> j" "j < length ?h"
        "chunk_dirty_flags (tile_changeset (?h ! j)) ! ?i" by auto
      then have "int j \<in> set ?js" using idx by auto
      with j(3) show ?L by (metis nat_int)
    qed
    also have "\<dots> = dirty_from r ?k x y"
    proof -
      have "chunk_x_len (tile_changeset (?h ! j)) = ?X" if "j < length ?h" for j
        using h that by (simp add: tile_ok_def)
      then show ?thesis by (simp add: dirty_from_def dirty_at_def)
    qed
    finally show ?thesis using c(2) by (simp add: dirty_at_def tile_ok_def)
  qed
  with res c(2) show ?thesis by blast
qed


lemma dirty_since_near:
  assumes "first_changeset_id r \<le> from_changeset"
    and "from_changeset - first_changeset_id r < 2147483648"
  shows "dirty_from r (int64_to_int (from_changeset - first_changeset_id r)) =
           dirty_since r from_changeset"
    and "regions_from r (int64_to_int (from_changeset - first_changeset_id r)) =
           regions_since r from_changeset"
proof -
  have "int64_to_int (from_changeset - first_changeset_id r) =
          from_changeset - first_changeset_id r"
    using assms by (intro int64_to_int_id) simp_all
  then show eq: "dirty_from r (int64_to_int (from_changeset - first_changeset_id r)) =
           dirty_since r from_changeset"
    by (simp add: dirty_since_def fun_eq_iff)
  show "regions_from r (int64_to_int (from_changeset - first_changeset_id r)) =
           regions_since r from_changeset"
    by (simp add: regions_from_def regions_since_def fun_eq_iff eq)
qed

subsection \<open>Collecting the regions\<close>

lemma chunk_region_rectangle: "chunk_region tile x y = chunk_rectangle tile x y"
  by (simp add: chunk_region_def BLI_rcti_init_def chunk_rectangle_def CHUNK_SIZE_def
      algebra_simps)

lemma foldE_collect_chunk:
  assumes "tile_sized c" "0 \<le> y" "y < chunk_y_len c"
    and "\<forall>x\<in>set xs. 0 \<le> x \<and> x < chunk_x_len c"
  shows "foldE (collect_chunk c tile y) xs regions =
           Inr (regions @ map (\<lambda>x. chunk_rectangle tile x y) (filter (\<lambda>x. dirty_at c x y) xs))"
  using assms(4)
proof (induction xs arbitrary: regions)
  case Nil
  then show ?case by simp
next
  case (Cons x xs)
  have "is_chunk_dirty c x y = Inr (dirty_at c x y)"
    using Cons.prems assms(1-3) by (intro is_chunk_dirty_ok) (simp_all add: tile_sized_def)
  then show ?case using Cons by (simp add: collect_chunk_def chunk_region_rectangle)
qed

lemma foldE_collect_rows:
  assumes "tile_sized c" and "\<forall>y\<in>set ys. 0 \<le> y \<and> y < chunk_y_len c"
  shows "foldE (\<lambda>y. foldE (collect_chunk c tile y) [0..chunk_x_len c - 1]) ys regions =
           Inr (regions @
                concat (map (\<lambda>y. map (\<lambda>x. chunk_rectangle tile x y)
                                   (filter (\<lambda>x. dirty_at c x y) [0..chunk_x_len c - 1])) ys))"
  using assms(2)
proof (induction ys arbitrary: regions)
  case Nil
  then show ?case by simp
next
  case (Cons y ys)
  have "foldE (collect_chunk c tile y) [0..chunk_x_len c - 1] regions =
          Inr (regions @ map (\<lambda>x. chunk_rectangle tile x y)
                 (filter (\<lambda>x. dirty_at c x y) [0..chunk_x_len c - 1]))"
    using Cons.prems assms(1) by (intro foldE_collect_chunk) simp_all
  then show ?case using Cons by simp
qed

lemma chunk_regions_cong:
  assumes "\<And>x y. 0 \<le> x \<Longrightarrow> x < X \<Longrightarrow> 0 \<le> y \<Longrightarrow> y < Y \<Longrightarrow> d x y = d' x y"
  shows "chunk_regions d X Y tile = chunk_regions d' X Y tile"
proof -
  have "filter (\<lambda>x. d x y) [0..X - 1] = filter (\<lambda>x. d' x y) [0..X - 1]"
    if "y \<in> set [0..Y - 1]" for y
    using that assms by (intro filter_cong) auto
  then show ?thesis
    unfolding chunk_regions_def by (intro arg_cong [where f = concat] map_cong) simp_all
qed

lemma chunk_regions_clean:
  assumes "\<And>x y. 0 \<le> x \<Longrightarrow> x < X \<Longrightarrow> 0 \<le> y \<Longrightarrow> y < Y \<Longrightarrow> \<not> d x y"
  shows "chunk_regions d X Y tile = []"
proof -
  have "chunk_regions d X Y tile = chunk_regions (\<lambda>x y. False) X Y tile"
    using assms by (intro chunk_regions_cong) simp
  then show ?thesis by (simp add: chunk_regions_def)
qed

lemma tile_ok_clean_flags:
  assumes "tile_ok X Y c" "\<not> has_dirty_chunks c" "0 \<le> x" "x < X" "0 \<le> y" "y < Y"
  shows "\<not> dirty_at c x y"
proof -
  have "nat (y * X + x) < length (chunk_dirty_flags c)"
    using chunk_index_bounds [OF assms(3-6)] assms(1) by (simp add: tile_ok_def nat_less_iff)
  then have "chunk_dirty_flags c ! nat (y * X + x) \<in> set (chunk_dirty_flags c)"
    by simp
  with assms(1,2) show ?thesis
    by (auto simp: tile_ok_def dirty_at_def)
qed

lemma collect_tile_ok:
  assumes ok: "register_ok r"
    and idx: "0 \<le> int64_to_int (from_changeset - first_changeset_id r)"
  shows "collect_tile r from_changeset tile regions =
           Inr (regions @
                regions_from r (int64_to_int (from_changeset - first_changeset_id r)) tile)"
proof -
  let ?X = "grid_x_len r" and ?Y = "grid_y_len r"
  let ?k = "int64_to_int (from_changeset - first_changeset_id r)"
  from changed_tile_chunks_since_ok [OF ok idx, of tile] obtain c where c:
    "changed_tile_chunks_since r tile from_changeset = Inr c" "tile_ok ?X ?Y c"
    "\<And>x y. 0 \<le> x \<Longrightarrow> x < ?X \<Longrightarrow> 0 \<le> y \<Longrightarrow> y < ?Y \<Longrightarrow>
        dirty_at c x y = dirty_from r ?k x y"
    by blast
  from c(2) have X: "chunk_x_len c = ?X" and Y: "chunk_y_len c = ?Y" and s: "tile_sized c"
    by (simp_all add: tile_ok_def tile_sized_def)
  have eq: "regions_from r ?k tile = chunk_regions (dirty_at c) ?X ?Y tile"
    unfolding regions_from_def using c(3) by (intro chunk_regions_cong) simp
  show ?thesis
  proof (cases "has_dirty_chunks c")
    case False
    have "chunk_regions (dirty_at c) ?X ?Y tile = []"
      using tile_ok_clean_flags [OF c(2) False] by (intro chunk_regions_clean) 
    with False c(1) eq show ?thesis by (simp add: collect_tile_def)
  next
    case True
    have "foldE (\<lambda>y. foldE (collect_chunk c tile y) [0..chunk_x_len c - 1]) [0..chunk_y_len c - 1] regions =
            Inr (regions @ chunk_regions (dirty_at c) ?X ?Y tile)"
      unfolding chunk_regions_def X [symmetric] Y [symmetric]
      using s by (intro foldE_collect_rows) simp_all
    with True c(1) eq show ?thesis by (simp add: collect_tile_def)
  qed
qed

lemma foldE_collect_tile:
  assumes ok: "register_ok r"
    and idx: "0 \<le> int64_to_int (from_changeset - first_changeset_id r)"
  shows "foldE (collect_tile r from_changeset) ts regions =
           Inr (regions @
                concat (map (regions_from r
                               (int64_to_int (from_changeset - first_changeset_id r))) ts))"
  by (induction ts arbitrary: regions) (simp_all add: collect_tile_ok [OF ok idx])

lemma collect_changes_gap:
  assumes "ensure_empty_changeset (image_partial_update_register_ensure img) = Inr r'"
    and "user_last_changeset_id user < first_changeset_id r'"
  shows "BKE_image_partial_update_collect_changes img user =
           Inr (PARTIAL_UPDATE_NEED_FULL_UPDATE, img\<lparr>partial_update_register := Some r'\<rparr>,
                \<lparr>user_last_changeset_id = last_changeset_id r', updated_regions = []\<rparr>)"
  using assms
  by (simp add: BKE_image_partial_update_collect_changes_def Let_def can_construct_def
      clear_updated_regions_def)

lemma collect_changes_same:
  assumes "ensure_empty_changeset (image_partial_update_register_ensure img) = Inr r'"
    and "first_changeset_id r' \<le> user_last_changeset_id user"
    and "user_last_changeset_id user = last_changeset_id r'"
  shows "BKE_image_partial_update_collect_changes img user =
           Inr (PARTIAL_UPDATE_NO_CHANGES, img\<lparr>partial_update_register := Some r'\<rparr>,
                \<lparr>user_last_changeset_id = last_changeset_id r', updated_regions = []\<rparr>)"
  using assms
  by (simp add: BKE_image_partial_update_collect_changes_def Let_def can_construct_def
      clear_updated_regions_def)

lemma collect_changes_available:
  assumes "ensure_empty_changeset (image_partial_update_register_ensure img) = Inr r'"
    and "register_ok r'"
    and "first_changeset_id r' \<le> user_last_changeset_id user"
    and "user_last_changeset_id user \<noteq> last_changeset_id r'"
    and "0 \<le> int64_to_int (user_last_changeset_id user - first_changeset_id r')"
  shows "BKE_image_partial_update_collect_changes img user =
           Inr (PARTIAL_UPDATE_CHANGES_AVAILABLE, img\<lparr>partial_update_register := Some r'\<rparr>,
                \<lparr>user_last_changeset_id = last_changeset_id r',
                 updated_regions =
                   concat (map (regions_from r'
                                  (int64_to_int
                                     (user_last_changeset_id user - first_changeset_id r')))
                             (tiles img))\<rparr>)"
proof -
  have "foldE (collect_tile r' (user_last_changeset_id user)) (tiles img) [] =
          Inr ([] @ concat (map (regions_from r'
                                   (int64_to_int
                                      (user_last_changeset_id user - first_changeset_id r')))
                              (tiles img)))"
    by (rule foldE_collect_tile [OF assms(2,5)])
  then show ?thesis
    using assms(1,3,4)
    by (simp add: BKE_image_partial_update_collect_changes_def Let_def can_construct_def
        clear_updated_regions_def)
qed

lemma collect_changes_available_near:
  assumes "ensure_empty_changeset (image_partial_update_register_ensure img) = Inr r'"
    and "register_ok r'"
    and "first_changeset_id r' \<le> user_last_changeset_id user"
    and "user_last_changeset_id user \<noteq> last_changeset_id r'"
    and "user_last_changeset_id user - first_changeset_id r' < 2147483648"
  shows "BKE_image_partial_update_collect_changes img user =
           Inr (PARTIAL_UPDATE_CHANGES_AVAILABLE, img\<lparr>partial_update_register := Some r'\<rparr>,
                \<lparr>user_last_changeset_id = last_changeset_id r',
                 updated_regions =
                   concat (map (regions_since r' (user_last_changeset_id user)) (tiles img))\<rparr>)"
proof -
  have "int64_to_int (user_last_changeset_id user - first_changeset_id r') =
          user_last_changeset_id user - first_changeset_id r'"
    using assms(3,5) by (intro int64_to_int_id) simp_all
  with collect_changes_available [OF assms(1,2,3,4)] assms(3)
    dirty_since_near(2) [OF assms(3,5)]
  show ?thesis by simp
qed

subsection \<open>Sequences of operations\<close>

lemma resolution_ok_nonneg:
  "0 \<le> imbuf_x image_buffer \<Longrightarrow> 0 \<le> imbuf_y image_buffer \<Longrightarrow> resolution_ok image_buffer"
  by (simp add: resolution_ok_def CHUNK_SIZE_def signed_divide_int_def sgn_if pos_imp_zdiv_nonneg_iff)

lemma update_resolution_fails:
  assumes "\<not> resolution_ok image_buffer"
    and "image_width r \<noteq> imbuf_x image_buffer \<or> image_height r \<noteq> imbuf_y image_buffer"
  shows "update_resolution image_buffer r = Inl LengthError"
  using assms by (simp add: update_resolution_def Let_def resolution_ok_def init_chunks_error)

lemma apply_op_succeeds:
  assumes "register_ok r" "op_ok op"
  shows "\<exists>r'. apply_op op r = Inr r' \<and> register_ok r'"
proof (cases op)
  case (Mark_region updated_region)
  then show ?thesis using mark_region_ok [OF assms(1)] by auto
next
  case Mark_full_update
  from assms(1) have "tile_ok (grid_x_len r) (grid_y_len r) (tile_changeset (current_changeset r))"
    by (simp add: register_ok_def)
  from mark_full_update_ok [OF this register_ok_last [OF assms(1)]] Mark_full_update
  show ?thesis by auto
next
  case Commit_current_changeset
  then show ?thesis using commit_current_changeset_ok [OF assms(1)] by auto
next
  case Ensure_empty_changeset
  then show ?thesis using ensure_empty_changeset_ok [OF assms(1)] by auto
next
  case (Update_resolution image_buffer)
  with assms(2) have "0 \<le> (imbuf_x image_buffer sdiv CHUNK_SIZE) * (imbuf_y image_buffer sdiv CHUNK_SIZE)"
    by (simp add: resolution_ok_def)
  from update_resolution_ok [OF assms(1) this] Update_resolution show ?thesis by auto
qed

lemma apply_op_register_ok:
  assumes "register_ok r" "apply_op op r = Inr r'"
  shows "register_ok r'"
proof (cases "op_ok op")
  case True
  from apply_op_succeeds [OF assms(1) True] assms(2) show ?thesis by auto
next
  case False
  then obtain image_buffer where op: "op = Update_resolution image_buffer"
    and bad: "\<not> resolution_ok image_buffer"
    by (cases op) auto
  show ?thesis
  proof (cases "image_width r \<noteq> imbuf_x image_buffer \<or> image_height r \<noteq> imbuf_y image_buffer")
    case True
    from update_resolution_fails [OF bad True] assms(2) op show ?thesis by simp
  next
    case False
    with assms op show ?thesis by (simp add: update_resolution_def)
  qed
qed

lemma run_ops_register_ok:
  assumes "register_ok r" "run_ops ops r = Inr r'"
  shows "register_ok r'"
  using assms unfolding run_ops_def
proof (induction ops arbitrary: r)
  case Nil
  then show ?case by simp
next
  case (Cons op ops)
  from Cons.prems(2) obtain r1 where r1: "apply_op op r = Inr r1" "foldE apply_op ops r1 = Inr r'"
    by (auto split: sum.splits)
  from Cons.IH [OF apply_op_register_ok [OF Cons.prems(1) r1(1)] r1(2)] show ?case .
qed

lemma run_ops_succeeds:
  assumes "register_ok r" "list_all op_ok ops"
  shows "\<exists>r'. run_ops ops r = Inr r' \<and> register_ok r'"
  using assms unfolding run_ops_def
proof (induction ops arbitrary: r)
  case Nil
  then show ?case by simp
next
  case (Cons op ops)
  from apply_op_succeeds [of r op] Cons.prems obtain r1 where
    r1: "apply_op op r = Inr r1" "register_ok r1" by auto
  from Cons.IH [OF r1(2)] Cons.prems(2) r1(1) show ?case by simp
qed

lemma apply_op_ids:
  assumes "apply_op op r = Inr r'"
    and "last_changeset_id r - first_changeset_id r = int (length (history r))"
  shows "last_changeset_id r' - first_changeset_id r' = int (length (history r')) \<and>
         last_changeset_id r \<le> last_changeset_id r'"
proof (cases op)
  case (Mark_region updated_region)
  with assms show ?thesis
    by (auto simp: mark_region_def Let_def set_current_def split: if_splits sum.splits)
next
  case Mark_full_update
  with assms show ?thesis
    by (auto simp: mark_full_update_def Let_def set_current_def split: sum.splits)
next
  case Commit_current_changeset
  with assms show ?thesis
    by (auto simp: commit_current_changeset_def Let_def set_current_def split: sum.splits)
next
  case Ensure_empty_changeset
  with assms show ?thesis
    by (auto simp: ensure_empty_changeset_def commit_current_changeset_def Let_def set_current_def
        split: if_splits sum.splits)
next
  case (Update_resolution image_buffer)
  with assms show ?thesis
    by (auto simp: update_resolution_def mark_full_update_def Let_def set_current_def
        split: if_splits sum.splits)
qed

lemma run_ops_ids:
  assumes "run_ops ops r = Inr r'"
    and "last_changeset_id r - first_changeset_id r = int (length (history r))"
  shows "last_changeset_id r' - first_changeset_id r' = int (length (history r')) \<and>
         last_changeset_id r \<le> last_changeset_id r'"
  using assms unfolding run_ops_def
proof (induction ops arbitrary: r)
  case Nil
  then show ?case by simp
next
  case (Cons op ops)
  from Cons.prems(1) obtain r1 where r1: "apply_op op r = Inr r1" "foldE apply_op ops r1 = Inr r'"
    by (auto split: sum.splits)
  from apply_op_ids [OF r1(1) Cons.prems(2)] Cons.IH [OF r1(2)]
  show ?case by auto
qed

subsection \<open>Small facts\<close>

lemma map2_or_same: "map2 (\<or>) fs fs = fs"
  by (induction fs) simp_all

lemma chunk_number_for_pixel_floor:
  assumes "0 \<le> pixel_offset \<or> \<not> CHUNK_SIZE dvd pixel_offset"
  shows "chunk_number_for_pixel pixel_offset = pixel_offset div CHUNK_SIZE"
  using assms
  by (auto simp: chunk_number_for_pixel_def CHUNK_SIZE_def divide_int_eq_signed_divide_int
      sgn_if)

subsection \<open>Chunks of the grid that overlap a marked rectangle\<close>

text \<open>Chunk \<open>c\<close> holds the pixels from \<open>c * CHUNK_SIZE\<close> up to \<open>(c + 1) * CHUNK_SIZE - 1\<close>.\<close>

lemma chunk_number_for_pixel_le:
  "chunk_number_for_pixel p \<le> p div CHUNK_SIZE"
  by (auto simp: chunk_number_for_pixel_def CHUNK_SIZE_def divide_int_eq_signed_divide_int sgn_if)

lemma chunk_number_for_pixel_mono:
  "p \<le> q \<Longrightarrow> chunk_number_for_pixel p \<le> chunk_number_for_pixel q"
  unfolding chunk_number_for_pixel_def CHUNK_SIZE_def Let_def signed_divide_int_def
  by (auto simp: sgn_if)

lemma chunk_range_of_overlap:
  assumes "0 \<le> c" "c * CHUNK_SIZE < hi" "lo < (c + 1) * CHUNK_SIZE"
  shows "max_ii 0 (chunk_number_for_pixel lo) \<le> c"
    and "c \<le> chunk_number_for_pixel (hi - 1)"
proof -
  from assms(3) have "lo < c * 256 + 256"
    by (simp add: CHUNK_SIZE_def algebra_simps)
  then have "lo div CHUNK_SIZE \<le> c"
    unfolding CHUNK_SIZE_def by linarith
  with chunk_number_for_pixel_le [of lo] assms(1)
  show "max_ii 0 (chunk_number_for_pixel lo) \<le> c" by simp
  from assms(1,2) have nn: "0 \<le> hi - 1"
    unfolding CHUNK_SIZE_def by linarith
  from assms(2) have "c \<le> (hi - 1) div CHUNK_SIZE"
    unfolding CHUNK_SIZE_def by linarith
  with nn show "c \<le> chunk_number_for_pixel (hi - 1)"
    by (simp add: chunk_number_for_pixel_floor)
qed

lemma mark_region_covers:
  assumes ok: "register_ok r"
    and chunk: "0 \<le> x" "x < grid_x_len r" "0 \<le> y" "y < grid_y_len r"
    and overlap_x: "x * CHUNK_SIZE < xmax updated_region" "xmin updated_region < (x + 1) * CHUNK_SIZE"
    and overlap_y: "y * CHUNK_SIZE < ymax updated_region" "ymin updated_region < (y + 1) * CHUNK_SIZE"
  shows "\<exists>r'. mark_region updated_region r = Inr r' \<and> register_ok r' \<and>
           has_dirty_chunks (tile_changeset (current_changeset r')) \<and>
           dirty_at (tile_changeset (current_changeset r')) x y \<and>
           history r' = history r \<and> first_changeset_id r' = first_changeset_id r \<and>
           last_changeset_id r' = last_changeset_id r \<and>
           image_width r' = image_width r \<and> image_height r' = image_height r"
proof -
  let ?X = "grid_x_len r" and ?Y = "grid_y_len r"
  let ?t = "tile_changeset (current_changeset r)"
  from ok have t: "tile_ok ?X ?Y ?t" by (simp add: register_ok_def)
  then have X: "chunk_x_len ?t = ?X" and Y: "chunk_y_len ?t = ?Y" by (simp_all add: tile_ok_def)
  let ?sx = "max_ii 0 (chunk_number_for_pixel (xmin updated_region))"
  let ?sy = "max_ii 0 (chunk_number_for_pixel (ymin updated_region))"
  let ?ex = "min_ii (?X - 1) (chunk_number_for_pixel (xmax updated_region - 1))"
  let ?ey = "min_ii (?Y - 1) (chunk_number_for_pixel (ymax updated_region - 1))"
  have sx: "?sx \<le> x" and ex: "x \<le> ?ex"
    using chunk_range_of_overlap [OF chunk(1) overlap_x] chunk(2) by simp_all
  have sy: "?sy \<le> y" and ey: "y \<le> ?ey"
    using chunk_range_of_overlap [OF chunk(3) overlap_y] chunk(4) by simp_all
  have "0 \<le> ?sx" "?ex < ?X" "0 \<le> ?sy" "?ey < ?Y" by simp_all
  from mark_chunks_dirty_ok [OF t this] obtain t' where
    t': "mark_chunks_dirty ?sx ?sy ?ex ?ey ?t = Inr t'" "tile_ok ?X ?Y t'" "has_dirty_chunks t'"
    "\<forall>x y. 0 \<le> x \<and> x < ?X \<and> 0 \<le> y \<and> y < ?Y \<longrightarrow>
        dirty_at t' x y = (dirty_at ?t x y \<or> (?sx \<le> x \<and> x \<le> ?ex \<and> ?sy \<le> y \<and> y \<le> ?ey))"
    by blast
  from t'(4) chunk sx ex sy ey have d: "dirty_at t' x y" by blast
  have exits: "\<not> ?sx \<ge> ?X" "\<not> ?sy \<ge> ?Y" "\<not> ?ex < 0" "\<not> ?ey < 0"
    using sx ex sy ey chunk by linarith+
  have res: "mark_region updated_region r = Inr (set_current t' r)"
    using exits t'(1) unfolding mark_region_def Let_def X Y by simp
  have "register_ok (set_current t' r)"
    using ok t'(2) by (simp add: register_ok_def set_current_def grid_x_len_def grid_y_len_def)
  with res t'(3) d show ?thesis by (simp add: set_current_def)
qed

lemma chunk_regions_member:
  assumes "0 \<le> x" "x < X" "0 \<le> y" "y < Y" "d x y"
  shows "chunk_rectangle tile x y \<in> set (chunk_regions d X Y tile)"
proof -
  have "x \<in> set (filter (\<lambda>x. d x y) [0..X - 1])" "y \<in> set [0..Y - 1]"
    using assms by simp_all
  then show ?thesis unfolding chunk_regions_def by auto
qed

lemma marked_chunk_is_collected:
  assumes ok: "register_ok r"
    and chunk: "0 \<le> x" "x < grid_x_len r" "0 \<le> y" "y < grid_y_len r"
    and overlap_x: "x * CHUNK_SIZE < xmax updated_region" "xmin updated_region < (x + 1) * CHUNK_SIZE"
    and overlap_y: "y * CHUNK_SIZE < ymax updated_region" "ymin updated_region < (y + 1) * CHUNK_SIZE"
    and seen: "first_changeset_id r \<le> user_last_changeset_id user"
      "user_last_changeset_id user \<le> last_changeset_id r"
    and idx: "0 \<le> int64_to_int (user_last_changeset_id user - first_changeset_id r)"
    and tile: "tile \<in> set (tiles img)"
  shows "\<exists>r1 img' user'. mark_region updated_region r = Inr r1 \<and>
           BKE_image_partial_update_collect_changes (img\<lparr>partial_update_register := Some r1\<rparr>) user =
             Inr (PARTIAL_UPDATE_CHANGES_AVAILABLE, img', user') \<and>
           chunk_rectangle tile x y \<in> set (updated_regions user')"
proof -
  let ?seen = "user_last_changeset_id user"
  let ?k = "int64_to_int (?seen - first_changeset_id r)"
  from mark_region_covers [OF ok chunk overlap_x overlap_y] obtain r1 where r1:
    "mark_region updated_region r = Inr r1" "register_ok r1"
    "has_dirty_chunks (tile_changeset (current_changeset r1))"
    "dirty_at (tile_changeset (current_changeset r1)) x y"
    "history r1 = history r" "first_changeset_id r1 = first_changeset_id r"
    "last_changeset_id r1 = last_changeset_id r"
    "image_width r1 = image_width r" "image_height r1 = image_height r"
    by blast
  let ?img1 = "img\<lparr>partial_update_register := Some r1\<rparr>"
  from ensure_empty_changeset_ok [OF r1(2)] r1(3) obtain r2 where r2:
    "ensure_empty_changeset r1 = Inr r2" "register_ok r2"
    "first_changeset_id r2 = first_changeset_id r1"
    "image_width r2 = image_width r1" "image_height r2 = image_height r1"
    "history r2 = history r1 @ [current_changeset r1]"
    "last_changeset_id r2 = last_changeset_id r1 + 1"
    by auto
  have first: "first_changeset_id r2 = first_changeset_id r"
    by (simp add: r2(3) r1(6))
  have ens: "ensure_empty_changeset (image_partial_update_register_ensure ?img1) = Inr r2"
    using r2(1) by (simp add: image_partial_update_register_ensure_def)
  have "first_changeset_id r2 \<le> ?seen" "?seen \<noteq> last_changeset_id r2"
    "0 \<le> int64_to_int (?seen - first_changeset_id r2)"
    using seen idx by (simp_all add: r2(3,7) r1(6,7))
  from collect_changes_available [OF ens r2(2) this]
  have res: "BKE_image_partial_update_collect_changes ?img1 user =
      Inr (PARTIAL_UPDATE_CHANGES_AVAILABLE, ?img1\<lparr>partial_update_register := Some r2\<rparr>,
           \<lparr>user_last_changeset_id = last_changeset_id r2,
            updated_regions = concat (map (regions_from r2 ?k) (tiles ?img1))\<rparr>)"
    by (simp add: first)
  from ok have ids: "last_changeset_id r - first_changeset_id r = int (length (history r))"
    by (simp add: register_ok_def)
  have "(?seen - first_changeset_id r + 2147483648) mod 4294967296 \<le>
          ?seen - first_changeset_id r + 2147483648"
    using seen(1) by (intro zmod_le_nonneg_dividend) simp
  then have "?k \<le> ?seen - first_changeset_id r"
    by (simp add: int64_to_int_def)
  then have "nat ?k \<le> length (history r1)"
    using seen ids by (simp add: r1(5))
  then have "length (history r1) \<in> {nat ?k..<length (history r2)}"
    by (simp add: r2(6))
  moreover have "dirty_at (tile_changeset (history r2 ! length (history r1))) x y"
    using r1(4) by (simp add: r2(6))
  ultimately have "dirty_from r2 ?k x y"
    unfolding dirty_from_def by blast
  moreover have "grid_x_len r2 = grid_x_len r" "grid_y_len r2 = grid_y_len r"
    by (simp_all add: grid_x_len_def grid_y_len_def r2(4,5) r1(8,9))
  ultimately have "chunk_rectangle tile x y \<in> set (regions_from r2 ?k tile)"
    unfolding regions_from_def using chunk by (intro chunk_regions_member) simp_all
  with tile have "chunk_rectangle tile x y \<in> set (concat (map (regions_from r2 ?k) (tiles ?img1)))"
    by auto
  with r1(1) res show ?thesis by simp
qed

subsection \<open>A change of resolution with a history\<close>

lemma update_resolution_with_history:
  assumes ok: "register_ok r" and hist: "history r \<noteq> []"
    and changed: "image_width r \<noteq> imbuf_x image_buffer \<or> image_height r \<noteq> imbuf_y image_buffer"
    and res: "resolution_ok image_buffer"
  shows "\<exists>r1. update_resolution image_buffer r = Inr r1 \<and> register_ok r1 \<and>
           first_changeset_id r1 = last_changeset_id r + 1 \<and>
           last_changeset_id r1 = last_changeset_id r + 1 \<and> history r1 = [] \<and>
           \<not> has_dirty_chunks (tile_changeset (current_changeset r1))"
proof -
  let ?X = "imbuf_x image_buffer sdiv CHUNK_SIZE" and ?Y = "imbuf_y image_buffer sdiv CHUNK_SIZE"
  let ?t = "\<lparr>chunk_dirty_flags = replicate (nat (?X * ?Y)) False,
                has_dirty_chunks = False, chunk_x_len = ?X, chunk_y_len = ?Y\<rparr>"
  let ?r2 = "set_current ?t
      (r\<lparr>image_width := imbuf_x image_buffer, image_height := imbuf_y image_buffer\<rparr>)"
  from res have nn: "0 \<le> ?X * ?Y" by (simp add: resolution_ok_def)
  from ok have t: "True \<in> set (chunk_dirty_flags (tile_changeset (current_changeset r)))
      \<longrightarrow> has_dirty_chunks (tile_changeset (current_changeset r))"
    by (simp add: register_ok_def tile_ok_def)
  have ic: "init_chunks ?X ?Y (tile_changeset (current_changeset r)) = Inr ?t"
    by (rule init_chunks_ok [OF nn t])
  have eq: "update_resolution image_buffer r = mark_full_update ?r2"
    using changed ic hist by (simp add: update_resolution_def Let_def set_current_def)
  have t2: "tile_ok (grid_x_len ?r2) (grid_y_len ?r2) (tile_changeset (current_changeset ?r2))"
    using tile_ok_clean [OF nn] by (simp add: set_current_def grid_x_len_def grid_y_len_def)
  have l2: "0 \<le> last_changeset_id ?r2"
    using register_ok_last [OF ok] by (simp add: set_current_def)
  from mark_full_update_ok [OF t2 l2] eq show ?thesis
    by (auto simp: set_current_def)
qed

lemma resize_with_history_needs_full_update:
  assumes ok: "register_ok r" and hist: "history r \<noteq> []"
    and changed: "image_width r \<noteq> imbuf_x image_buffer \<or> image_height r \<noteq> imbuf_y image_buffer"
    and res: "resolution_ok image_buffer"
    and seen: "user_last_changeset_id user \<le> last_changeset_id r"
  shows "\<exists>r1 img' user'. update_resolution image_buffer r = Inr r1 \<and>
           BKE_image_partial_update_collect_changes (img\<lparr>partial_update_register := Some r1\<rparr>) user =
             Inr (PARTIAL_UPDATE_NEED_FULL_UPDATE, img', user')"
proof -
  from update_resolution_with_history [OF ok hist changed res] obtain r1 where r1:
    "update_resolution image_buffer r = Inr r1" "register_ok r1"
    "first_changeset_id r1 = last_changeset_id r + 1"
    "\<not> has_dirty_chunks (tile_changeset (current_changeset r1))"
    by blast
  let ?img1 = "img\<lparr>partial_update_register := Some r1\<rparr>"
  from ensure_empty_changeset_ok [OF r1(2)] r1(4)
  have ens: "ensure_empty_changeset (image_partial_update_register_ensure ?img1) = Inr r1"
    by (auto simp: image_partial_update_register_ensure_def)
  have "user_last_changeset_id user < first_changeset_id r1"
    using seen by (simp add: r1(3))
  from collect_changes_gap [OF ens this] r1(1) show ?thesis by blast
qed

subsection \<open>The summary flag under rectangles that are not empty\<close>

lemma tile_exact_clean:
  "tile_exact \<lparr>chunk_dirty_flags = replicate n False, has_dirty_chunks = False,
                chunk_x_len = X, chunk_y_len = Y\<rparr>"
  by (simp add: tile_exact_def)

lemma register_exact_new: "register_exact PartialUpdateRegisterImpl_new"
  by (simp add: register_exact_def tile_exact_def PartialUpdateRegisterImpl_new_def
      TileChangeset_new_def)

lemma mark_region_exact:
  assumes ok: "register_ok r" and ex: "tile_exact (tile_changeset (current_changeset r))"
    and ne: "region_nonempty updated_region"
    and res: "mark_region updated_region r = Inr r'"
  shows "tile_exact (tile_changeset (current_changeset r'))"
proof -
  let ?X = "grid_x_len r" and ?Y = "grid_y_len r"
  let ?t = "tile_changeset (current_changeset r)"
  from ok have t: "tile_ok ?X ?Y ?t" by (simp add: register_ok_def)
  then have X: "chunk_x_len ?t = ?X" and Y: "chunk_y_len ?t = ?Y" by (simp_all add: tile_ok_def)
  let ?sx = "max_ii 0 (chunk_number_for_pixel (xmin updated_region))"
  let ?sy = "max_ii 0 (chunk_number_for_pixel (ymin updated_region))"
  let ?ex = "min_ii (?X - 1) (chunk_number_for_pixel (xmax updated_region - 1))"
  let ?ey = "min_ii (?Y - 1) (chunk_number_for_pixel (ymax updated_region - 1))"
  show ?thesis
  proof (cases "?sx \<ge> ?X \<or> ?sy \<ge> ?Y \<or> ?ex < 0 \<or> ?ey < 0")
    case True
    then have "mark_region updated_region r = Inr r"
      unfolding mark_region_def Let_def X Y by auto
    with res ex show ?thesis by simp
  next
    case False
    then have exits: "?sx < ?X" "?sy < ?Y" "0 \<le> ?ex" "0 \<le> ?ey" by linarith+
    have "chunk_number_for_pixel (xmin updated_region) \<le> chunk_number_for_pixel (xmax updated_region - 1)"
      "chunk_number_for_pixel (ymin updated_region) \<le> chunk_number_for_pixel (ymax updated_region - 1)"
      using ne by (simp_all add: region_nonempty_def chunk_number_for_pixel_mono)
    with exits have le: "?sx \<le> ?ex" "?sy \<le> ?ey" by (simp_all add: max_def min_def split: if_splits)
    have range: "0 \<le> ?sx" "?ex < ?X" "0 \<le> ?sy" "?ey < ?Y" by simp_all
    from mark_chunks_dirty_ok [OF t range] obtain t' where
      t': "mark_chunks_dirty ?sx ?sy ?ex ?ey ?t = Inr t'" "tile_ok ?X ?Y t'" "has_dirty_chunks t'"
      "\<forall>x y. 0 \<le> x \<and> x < ?X \<and> 0 \<le> y \<and> y < ?Y \<longrightarrow>
          dirty_at t' x y = (dirty_at ?t x y \<or> (?sx \<le> x \<and> x \<le> ?ex \<and> ?sy \<le> y \<and> y \<le> ?ey))"
      by blast
    have in_grid: "0 \<le> ?sx" "?sx < ?X" "0 \<le> ?sy" "?sy < ?Y"
      using exits by simp_all
    with t'(4) le have d: "dirty_at t' ?sx ?sy" by blast
    have "nat (?sy * ?X + ?sx) < length (chunk_dirty_flags t')"
      using chunk_index_bounds [OF in_grid] t'(2) by (simp add: tile_ok_def nat_less_iff)
    then have "chunk_dirty_flags t' ! nat (?sy * ?X + ?sx) \<in> set (chunk_dirty_flags t')"
      by simp
    with d t'(2) have "True \<in> set (chunk_dirty_flags t')"
      by (auto simp: dirty_at_def tile_ok_def)
    with t'(3) have "tile_exact t'" by (simp add: tile_exact_def)
    moreover have "mark_region updated_region r = Inr (set_current t' r)"
      using False t'(1) unfolding mark_region_def Let_def X Y by auto
    ultimately show ?thesis using res by (simp add: set_current_def)
  qed
qed

lemma merge_exact:
  assumes "tile_ok X Y a" "tile_ok X Y b" "tile_exact a" "tile_exact b" "merge a b = Inr c"
  shows "tile_exact c"
proof -
  have len: "length (chunk_dirty_flags a) = length (chunk_dirty_flags b)"
    using assms(1,2) by (simp add: tile_ok_def)
  from merge_ok [OF assms(1,2)] assms(5) have
    "has_dirty_chunks c = (has_dirty_chunks a \<or> has_dirty_chunks b)"
    "chunk_dirty_flags c = map2 (\<or>) (chunk_dirty_flags a) (chunk_dirty_flags b)"
    by auto
  with assms(3,4) True_in_map2_or [OF len] show ?thesis
    by (simp add: tile_exact_def)
qed

lemma apply_op_exact:
  assumes ok: "register_ok r" and ex: "register_exact r" and ne: "op_nonempty op"
    and res: "apply_op op r = Inr r'"
  shows "register_exact r'"
proof (cases op)
  case (Mark_region updated_region)
  from mark_region_ok [OF ok, of updated_region] res Mark_region
  have h: "history r' = history r" by auto
  from mark_region_exact [OF ok _ _ _] ex ne res Mark_region
  have "tile_exact (tile_changeset (current_changeset r'))"
    by (simp add: register_exact_def)
  with h ex show ?thesis by (simp add: register_exact_def)
next
  case Mark_full_update
  from ok have t: "tile_ok (grid_x_len r) (grid_y_len r) (tile_changeset (current_changeset r))"
    by (simp add: register_ok_def)
  from reset_ok [OF t] res Mark_full_update show ?thesis
    by (auto simp: mark_full_update_def set_current_def register_exact_def tile_exact_def)
next
  case Commit_current_changeset
  from ok have t: "tile_ok (grid_x_len r) (grid_y_len r) (tile_changeset (current_changeset r))"
    by (simp add: register_ok_def)
  from reset_moved_from [OF t] res Commit_current_changeset ex show ?thesis
    by (auto simp: commit_current_changeset_def set_current_def register_exact_def tile_exact_def)
next
  case Ensure_empty_changeset
  from ok have t: "tile_ok (grid_x_len r) (grid_y_len r) (tile_changeset (current_changeset r))"
    by (simp add: register_ok_def)
  from reset_moved_from [OF t] res Ensure_empty_changeset ex show ?thesis
    by (auto simp: ensure_empty_changeset_def commit_current_changeset_def set_current_def
        register_exact_def tile_exact_def split: if_splits)
next
  case (Update_resolution image_buffer)
  show ?thesis
  proof (cases "image_width r \<noteq> imbuf_x image_buffer \<or> image_height r \<noteq> imbuf_y image_buffer")
    case False
    with res Update_resolution ex show ?thesis by (simp add: update_resolution_def)
  next
    case True
    from apply_op_register_ok [OF ok res] have ok': "register_ok r'" .
    have "\<not> has_dirty_chunks (tile_changeset (current_changeset r'))"
      using res Update_resolution True
      by (auto simp: update_resolution_def Let_def set_current_def mark_full_update_def reset_def
          init_chunks_def split: sum.splits if_splits)
    with ok' have cur: "tile_exact (tile_changeset (current_changeset r'))"
      by (auto simp: register_ok_def tile_ok_def tile_exact_def)
    have "history r' = history r \<or> history r' = []"
      using res Update_resolution True
      by (auto simp: update_resolution_def Let_def set_current_def mark_full_update_def
          split: sum.splits if_splits)
    with cur ex show ?thesis by (auto simp: register_exact_def)
  qed
qed

lemma run_ops_exact:
  assumes "register_ok r" "register_exact r" "list_all op_nonempty ops" "run_ops ops r = Inr r'"
  shows "register_exact r'"
  using assms unfolding run_ops_def
proof (induction ops arbitrary: r)
  case Nil
  then show ?case by simp
next
  case (Cons op ops)
  from Cons.prems(4) obtain r1 where r1: "apply_op op r = Inr r1" "foldE apply_op ops r1 = Inr r'"
    by (auto split: sum.splits)
  from Cons.prems(3) have ne: "op_nonempty op" "list_all op_nonempty ops" by simp_all
  from Cons.IH [OF apply_op_register_ok [OF Cons.prems(1) r1(1)]
      apply_op_exact [OF Cons.prems(1,2) ne(1) r1(1)] ne(2) r1(2)]
  show ?case .
qed

subsection \<open>Evaluated runs\<close>


lemma run_512_commit:
  "run_ops [Update_resolution (image_buffer_of 512),
            Mark_region \<lparr>xmin = 0, xmax = 300, ymin = 0, ymax = 10\<rparr>,
            Commit_current_changeset]
     PartialUpdateRegisterImpl_new =
   Inr (register_of 512 0 1 [tile_of 2 [True, True, False, False] True]
          (tile_of 2 [False, False, False, False] False))"
  by code_simp

lemma run_512_full_update:
  "run_ops [Mark_full_update]
     (register_of 512 0 1 [tile_of 2 [True, True, False, False] True]
        (tile_of 2 [False, False, False, False] False)) =
   Inr (register_of 512 2 2 [] (tile_of 2 [False, False, False, False] False))"
  by code_simp

lemma collect_stale_user:
  "BKE_image_partial_update_collect_changes example_image stale_user =
     Inr (PARTIAL_UPDATE_NEED_FULL_UPDATE, image_of PartialUpdateRegisterImpl_new, user_synced 0)"
  by code_simp

lemma run_512_degenerate:
  "run_ops [Update_resolution (image_buffer_of 512),
            Mark_region \<lparr>xmin = 256, xmax = 256, ymin = 0, ymax = 10\<rparr>]
     PartialUpdateRegisterImpl_new =
   Inr (register_of 512 0 0 [] (tile_of 2 [False, False, False, False] True))"
  by code_simp

lemma run_512_mark:
  "run_ops [Update_resolution (image_buffer_of 512),
            Mark_region \<lparr>xmin = 0, xmax = 10, ymin = 0, ymax = 10\<rparr>]
     PartialUpdateRegisterImpl_new =
   Inr (register_of 512 0 0 [] (tile_of 2 [True, False, False, False] True))"
  by code_simp

lemma resize_512_1024:
  "update_resolution (image_buffer_of 1024)
     (register_of 512 0 0 [] (tile_of 2 [True, False, False, False] True)) =
   Inr (register_of 1024 0 0 [] (tile_of 4 (replicate 16 False) False))"
  by code_simp

lemma full_update_1024:
  "mark_full_update (register_of 1024 0 0 [] (tile_of 4 (replicate 16 False) False)) =
   Inr (register_of 1024 1 1 [] (tile_of 4 (replicate 16 False) False))"
  by code_simp

lemma collect_1024:
  "BKE_image_partial_update_collect_changes
     (image_of (register_of 1024 0 0 [] (tile_of 4 (replicate 16 False) False))) (user_synced 0) =
   Inr (PARTIAL_UPDATE_NO_CHANGES,
        image_of (register_of 1024 0 0 [] (tile_of 4 (replicate 16 False) False)), user_synced 0)"
  by code_simp

lemma run_300_mark:
  "run_ops [Update_resolution (image_buffer_of 300),
            Mark_region \<lparr>xmin = 260, xmax = 290, ymin = 0, ymax = 10\<rparr>]
     PartialUpdateRegisterImpl_new =
   Inr (register_of 300 0 0 [] (tile_of 1 [False] False))"
  by code_simp

lemma collect_300:
  "BKE_image_partial_update_collect_changes
     (image_of (register_of 300 0 0 [] (tile_of 1 [False] False))) (user_synced 0) =
   Inr (PARTIAL_UPDATE_NO_CHANGES,
        image_of (register_of 300 0 0 [] (tile_of 1 [False] False)), user_synced 0)"
  by code_simp

lemma mark_example_image:
  "BKE_image_partial_update_mark_region example_image (image_buffer_of 512)
     \<lparr>xmin = 0, xmax = 300, ymin = 0, ymax = 10\<rparr> =
   Inr (image_of (register_of 512 0 0 [] (tile_of 2 [True, True, False, False] True)))"
  by code_simp

lemma collect_fresh_after_mark:
  "BKE_image_partial_update_collect_changes
     (image_of (register_of 512 0 0 [] (tile_of 2 [True, True, False, False] True)))
     (BKE_image_partial_update_create
        (image_of (register_of 512 0 0 [] (tile_of 2 [True, True, False, False] True)))) =
   Inr (PARTIAL_UPDATE_NEED_FULL_UPDATE,
        image_of (register_of 512 0 1 [tile_of 2 [True, True, False, False] True]
                    (tile_of 2 [False, False, False, False] False)),
        \<lparr>user_last_changeset_id = 1, updated_regions = []\<rparr>)"
  by code_simp

lemma collect_fresh:
  "BKE_image_partial_update_collect_changes example_image
     (BKE_image_partial_update_create example_image) =
   Inr (PARTIAL_UPDATE_NEED_FULL_UPDATE, image_of PartialUpdateRegisterImpl_new, user_synced 0)"
  by code_simp

lemma mark_after_collect:
  "BKE_image_partial_update_mark_region (image_of PartialUpdateRegisterImpl_new)
     (image_buffer_of 512) \<lparr>xmin = 0, xmax = 300, ymin = 0, ymax = 10\<rparr> =
   Inr (image_of (register_of 512 0 0 [] (tile_of 2 [True, True, False, False] True)))"
  by code_simp

lemma collect_synced_after_mark:
  "BKE_image_partial_update_collect_changes
     (image_of (register_of 512 0 0 [] (tile_of 2 [True, True, False, False] True)))
     (user_synced 0) =
   Inr (PARTIAL_UPDATE_CHANGES_AVAILABLE,
        image_of (register_of 512 0 1 [tile_of 2 [True, True, False, False] True]
                    (tile_of 2 [False, False, False, False] False)),
        \<lparr>user_last_changeset_id = 1,
         updated_regions =
           [\<lparr>tile_number = 1001, region = \<lparr>xmin = 0, xmax = 256, ymin = 0, ymax = 256\<rparr>\<rparr>,
            \<lparr>tile_number = 1001, region = \<lparr>xmin = 256, xmax = 512, ymin = 0, ymax = 256\<rparr>\<rparr>]\<rparr>)"
  by code_simp

lemma dirty_chunks_after_mark:
  "map (\<lambda>(chunk_x, chunk_y).
          is_chunk_dirty (tile_of 2 [True, True, False, False] True) chunk_x chunk_y)
     [(0, 0), (1, 0), (0, 1), (1, 1)] =
   [Inr True, Inr True, Inr False, Inr False]"
  by code_simp

lemma mark_full_update_new:
  "mark_full_update (register_of 0 k k [] TileChangeset_new) =
     Inr (register_of 0 (k + 1) (k + 1) [] TileChangeset_new)"
  by (simp add: mark_full_update_def register_of_def TileChangeset_new_def reset_def
      init_chunks_def resize_def set_current_def)

lemma full_updates:
  "run_ops (replicate n Mark_full_update) PartialUpdateRegisterImpl_new =
     Inr (register_of 0 (int n) (int n) [] TileChangeset_new)"
proof (induction n)
  case 0
  show ?case
    by (simp add: run_ops_def PartialUpdateRegisterImpl_new_def register_of_def)
next
  case (Suc n)
  have "run_ops (replicate n Mark_full_update @ [Mark_full_update])
          PartialUpdateRegisterImpl_new =
        Inr (register_of 0 (int n + 1) (int n + 1) [] TileChangeset_new)"
    using Suc.IH by (simp add: run_ops_def foldE_append mark_full_update_new)
  then show ?case
    by (simp add: replicate_append_same add.commute)
qed

lemma collect_fresh_after_full_updates:
  "BKE_image_partial_update_collect_changes
     (image_of (register_of 0 4294967296 4294967296 [] TileChangeset_new))
     (BKE_image_partial_update_create
        (image_of (register_of 0 4294967296 4294967296 [] TileChangeset_new))) =
   Inr (PARTIAL_UPDATE_NEED_FULL_UPDATE,
        image_of (register_of 0 4294967296 4294967296 [] TileChangeset_new),
        user_synced 4294967296)"
  by code_simp

lemma free_register:
  "BKE_image_partial_update_register_free (image_of r) = example_image"
  by (simp add: BKE_image_partial_update_register_free_def image_of_def example_image_def)

lemma collect_far_cursor:
  "BKE_image_partial_update_collect_changes
     (image_of (register_of 512 0 0 [] (tile_of 2 [True, True, False, False] True)))
     (user_synced 4294967296) =
   Inr (PARTIAL_UPDATE_CHANGES_AVAILABLE,
        image_of (register_of 512 0 1 [tile_of 2 [True, True, False, False] True]
                    (tile_of 2 [False, False, False, False] False)),
        \<lparr>user_last_changeset_id = 1,
         updated_regions =
           [\<lparr>tile_number = 1001, region = \<lparr>xmin = 0, xmax = 256, ymin = 0, ymax = 256\<rparr>\<rparr>,
            \<lparr>tile_number = 1001, region = \<lparr>xmin = 256, xmax = 512, ymin = 0, ymax = 256\<rparr>\<rparr>]\<rparr>)"
  by code_simp

lemma no_regions_since_far:
  "regions_since (register_of 512 0 1 [tile_of 2 [True, True, False, False] True]
                    (tile_of 2 [False, False, False, False] False)) 4294967296 1001 = []"
  by (simp add: regions_since_def chunk_regions_def dirty_since_def dirty_from_def
      register_of_def)





subsection \<open>A history of \<open>2^32\<close> changesets\<close>





















section \<open>The claims\<close>

subsection \<open>C1: the state machine of a collection\<close>



text \<open>
  A cursor also gets that far from \<open>first_changeset_id\<close> without a long history, when it is
  kept across \<^verbatim>\<open>BKE_image_partial_update_register_free\<close>: an image gets \<open>2^32\<close> full updates
  and a new cursor collects, which leaves it on id \<open>2^32\<close>; the register is freed;
  \<open>[0,300) x [0,10)\<close> of a 512 by 512 buffer is marked, which makes a new register; the
  cursor collects again. The new register has committed one changeset, with id 0, and
  none after id \<open>2^32\<close>, yet the cursor is handed the two rectangles of changeset 0.
\<close>

lemma far_cursor_after_free:
  "run_ops (replicate 4294967296 Mark_full_update) PartialUpdateRegisterImpl_new =
   Inr (register_of 0 4294967296 4294967296 [] TileChangeset_new) \<and>
   BKE_image_partial_update_collect_changes
     (image_of (register_of 0 4294967296 4294967296 [] TileChangeset_new))
     (BKE_image_partial_update_create
        (image_of (register_of 0 4294967296 4294967296 [] TileChangeset_new))) =
   Inr (PARTIAL_UPDATE_NEED_FULL_UPDATE,
        image_of (register_of 0 4294967296 4294967296 [] TileChangeset_new),
        user_synced 4294967296) \<and>
   BKE_image_partial_update_register_free
     (image_of (register_of 0 4294967296 4294967296 [] TileChangeset_new)) = example_image \<and>
   BKE_image_partial_update_mark_region example_image (image_buffer_of 512)
     \<lparr>xmin = 0, xmax = 300, ymin = 0, ymax = 10\<rparr> =
   Inr (image_of (register_of 512 0 0 [] (tile_of 2 [True, True, False, False] True))) \<and>
   BKE_image_partial_update_collect_changes
     (image_of (register_of 512 0 0 [] (tile_of 2 [True, True, False, False] True)))
     (user_synced 4294967296) =
   Inr (PARTIAL_UPDATE_CHANGES_AVAILABLE,
        image_of (register_of 512 0 1 [tile_of 2 [True, True, False, False] True]
                    (tile_of 2 [False, False, False, False] False)),
        \<lparr>user_last_changeset_id = 1,
         updated_regions =
           [\<lparr>tile_number = 1001, region = \<lparr>xmin = 0, xmax = 256, ymin = 0, ymax = 256\<rparr>\<rparr>,
            \<lparr>tile_number = 1001, region = \<lparr>xmin = 256, xmax = 512, ymin = 0, ymax = 256\<rparr>\<rparr>]\<rparr>) \<and>
   regions_since (register_of 512 0 1 [tile_of 2 [True, True, False, False] True]
                    (tile_of 2 [False, False, False, False] False)) 4294967296 1001 = []"
proof -
  have "run_ops (replicate 4294967296 Mark_full_update) PartialUpdateRegisterImpl_new =
      Inr (register_of 0 (int 4294967296) (int 4294967296) [] TileChangeset_new)"
    by (rule full_updates)
  then have "run_ops (replicate 4294967296 Mark_full_update) PartialUpdateRegisterImpl_new =
      Inr (register_of 0 4294967296 4294967296 [] TileChangeset_new)"
    by (simp only: of_nat_numeral)
  with collect_fresh_after_full_updates free_register mark_example_image collect_far_cursor
    no_regions_since_far
  show ?thesis by (simp only: simp_thms)
qed

text \<open>
  For every image whose register has been reached from a new one by a sequence of
  register operations, and every cursor whose id is less than \<open>2^31\<close> above
  \<open>first_changeset_id\<close>, the collection does answer by the table: it first commits a dirty
  current changeset (\<open>r'\<close> is the register after \<^verbatim>\<open>ensure_empty_changeset\<close>), and then the
  result is NEED_FULL_UPDATE when the cursor's id is the unknown id or lies before
  \<open>first_changeset_id\<close>, NO_CHANGES when it is \<open>last_changeset_id\<close>, and otherwise
  CHANGES_AVAILABLE, with, for each tile of the image, the rectangle \<open>chunk_rectangle\<close> of each
  chunk that is dirty in a changeset committed after the cursor's id. In every case the
  cursor ends on \<open>last_changeset_id\<close>, and only in the last it holds regions.
\<close>

lemma collect_changes_state_machine_near:
  assumes reach: "run_ops ops PartialUpdateRegisterImpl_new =
             Inr (image_partial_update_register_ensure img)"
    and near: "user_last_changeset_id user -
                 first_changeset_id (image_partial_update_register_ensure img) < 2147483648"
  shows "\<exists>r'. ensure_empty_changeset (image_partial_update_register_ensure img) = Inr r' \<and>
           BKE_image_partial_update_collect_changes img user =
             Inr (if user_last_changeset_id user = UnknownChangesetID \<or>
                     user_last_changeset_id user < first_changeset_id r'
                  then (PARTIAL_UPDATE_NEED_FULL_UPDATE,
                        img\<lparr>partial_update_register := Some r'\<rparr>,
                        \<lparr>user_last_changeset_id = last_changeset_id r', updated_regions = []\<rparr>)
                  else if user_last_changeset_id user = last_changeset_id r'
                  then (PARTIAL_UPDATE_NO_CHANGES,
                        img\<lparr>partial_update_register := Some r'\<rparr>,
                        \<lparr>user_last_changeset_id = last_changeset_id r', updated_regions = []\<rparr>)
                  else (PARTIAL_UPDATE_CHANGES_AVAILABLE,
                        img\<lparr>partial_update_register := Some r'\<rparr>,
                        \<lparr>user_last_changeset_id = last_changeset_id r',
                         updated_regions =
                           concat (map (regions_since r' (user_last_changeset_id user))
                                     (tiles img))\<rparr>))"
proof -
  let ?seen = "user_last_changeset_id user"
  from run_ops_register_ok [OF register_ok_new reach]
  have ok: "register_ok (image_partial_update_register_ensure img)" .
  from ensure_empty_changeset_ok [OF ok] obtain r' where r':
    "ensure_empty_changeset (image_partial_update_register_ensure img) = Inr r'"
    "register_ok r'"
    "first_changeset_id r' = first_changeset_id (image_partial_update_register_ensure img)"
    by blast
  from r'(2) have first: "0 \<le> first_changeset_id r'"
    by (simp add: register_ok_def)
  from near have near': "?seen - first_changeset_id r' < 2147483648"
    by (simp add: r'(3))
  consider (gap) "?seen < first_changeset_id r'"
    | (same) "first_changeset_id r' \<le> ?seen" "?seen = last_changeset_id r'"
    | (changes) "first_changeset_id r' \<le> ?seen" "?seen \<noteq> last_changeset_id r'"
    by linarith
  then have "BKE_image_partial_update_collect_changes img user =
             Inr (if ?seen = UnknownChangesetID \<or> ?seen < first_changeset_id r'
                  then (PARTIAL_UPDATE_NEED_FULL_UPDATE,
                        img\<lparr>partial_update_register := Some r'\<rparr>,
                        \<lparr>user_last_changeset_id = last_changeset_id r', updated_regions = []\<rparr>)
                  else if ?seen = last_changeset_id r'
                  then (PARTIAL_UPDATE_NO_CHANGES,
                        img\<lparr>partial_update_register := Some r'\<rparr>,
                        \<lparr>user_last_changeset_id = last_changeset_id r', updated_regions = []\<rparr>)
                  else (PARTIAL_UPDATE_CHANGES_AVAILABLE,
                        img\<lparr>partial_update_register := Some r'\<rparr>,
                        \<lparr>user_last_changeset_id = last_changeset_id r',
                         updated_regions =
                           concat (map (regions_since r' ?seen) (tiles img))\<rparr>))"
  proof cases
    case gap
    with collect_changes_gap [OF r'(1) gap] show ?thesis by simp
  next
    case same
    with collect_changes_same [OF r'(1) same] first show ?thesis
      by (simp add: UnknownChangesetID_def)
  next
    case changes
    with collect_changes_available_near [OF r'(1,2) changes near'] first show ?thesis
      by (simp add: UnknownChangesetID_def)
  qed
  with r'(1) show ?thesis by blast
qed

subsection \<open>C2: the summary flag\<close>

text \<open>
  C2. The claim is that \<^verbatim>\<open>has_dirty_chunks\<close> is true exactly when a chunk flag is, and
  that a degenerate rectangle never sets it alone. On a 512 by 512 image (a 2 by 2 grid)
  the empty rectangle with \<^verbatim>\<open>xmin = xmax = 256\<close> passes the four early exits of
  \<^verbatim>\<open>mark_region\<close> with the chunk range \<open>1..0\<close> along x; \<^verbatim>\<open>mark_chunks_dirty\<close> writes no flag
  and sets \<^verbatim>\<open>has_dirty_chunks_\<close>. The run below ends with the summary flag set and the four
  chunk flags clear. (A set chunk flag always comes with the summary flag, which is part
  of \<open>register_ok\<close>; and as long as every marked rectangle has \<^verbatim>\<open>xmin < xmax\<close> and
  \<^verbatim>\<open>ymin < ymax\<close> the equivalence holds, \<open>run_ops_exact\<close>.)
\<close>

theorem degenerate_region_sets_summary_flag:
  "run_ops [Update_resolution (image_buffer_of 512),
            Mark_region \<lparr>xmin = 256, xmax = 256, ymin = 0, ymax = 10\<rparr>]
     PartialUpdateRegisterImpl_new =
   Inr (register_of 512 0 0 [] (tile_of 2 [False, False, False, False] True)) \<and>
   has_dirty_chunks (tile_of 2 [False, False, False, False] True) \<and>
   True \<notin> set (chunk_dirty_flags (tile_of 2 [False, False, False, False] True))"
  using run_512_degenerate by (simp add: tile_of_def)

subsection \<open>C3: the chunk of a pixel\<close>

text \<open>
  C3. The claim is that the chunk number of every pixel coordinate \<open>p\<close> is the floor of
  \<open>p / CHUNK_SIZE\<close>. \<^verbatim>\<open>chunk_number_for_pixel\<close> truncates and then subtracts one from
  every negative coordinate, also where the division was exact: at pixel \<open>-256\<close> it
  answers \<open>-2\<close>, and the floor is \<open>-1\<close>.
\<close>

theorem chunk_number_for_pixel_exact_negative:
  "chunk_number_for_pixel (- 256) = - 2 \<and> (- 256 :: int) div CHUNK_SIZE = - 1"
  by (simp add: chunk_number_for_pixel_def CHUNK_SIZE_def signed_divide_int_def)

subsection \<open>C4: a change of resolution\<close>

text \<open>
  C4. The claim is that a change of resolution forces \<^verbatim>\<open>mark_full_update\<close> whenever the
  current changeset has dirty chunks or the history is not empty. \<^verbatim>\<open>update_resolution\<close>
  tests \<^verbatim>\<open>has_dirty_chunks()\<close> after \<^verbatim>\<open>init_chunks\<close> has cleared it, so only the history
  counts. Below, a 512 by 512 register with one dirty chunk and no history is resized to
  1024 by 1024: the marks are dropped and both changeset ids stay 0, where
  \<^verbatim>\<open>mark_full_update\<close> would have made them 1; a cursor that had seen changeset 0 is then
  told NO_CHANGES. (When the history is not empty the resize does force the full update,
  and every cursor up to then is told NEED_FULL_UPDATE,
  \<open>resize_with_history_needs_full_update\<close>.)
\<close>

theorem resize_drops_pending_marks:
  "run_ops [Update_resolution (image_buffer_of 512),
            Mark_region \<lparr>xmin = 0, xmax = 10, ymin = 0, ymax = 10\<rparr>]
     PartialUpdateRegisterImpl_new =
   Inr (register_of 512 0 0 [] (tile_of 2 [True, False, False, False] True)) \<and>
   update_resolution (image_buffer_of 1024)
     (register_of 512 0 0 [] (tile_of 2 [True, False, False, False] True)) =
   Inr (register_of 1024 0 0 [] (tile_of 4 (replicate 16 False) False)) \<and>
   mark_full_update (register_of 1024 0 0 [] (tile_of 4 (replicate 16 False) False)) =
   Inr (register_of 1024 1 1 [] (tile_of 4 (replicate 16 False) False)) \<and>
   BKE_image_partial_update_collect_changes
     (image_of (register_of 1024 0 0 [] (tile_of 4 (replicate 16 False) False))) (user_synced 0) =
   Inr (PARTIAL_UPDATE_NO_CHANGES,
        image_of (register_of 1024 0 0 [] (tile_of 4 (replicate 16 False) False)), user_synced 0)"
  using run_512_mark resize_512_1024 full_update_1024 collect_1024 by simp

text \<open>The resolution does change in that run: the branch taken is the resizing one.\<close>

theorem resize_drops_pending_marks_witness:
  "image_width (register_of 512 0 0 [] (tile_of 2 [True, False, False, False] True)) \<noteq>
     imbuf_x (image_buffer_of 1024) \<and>
   has_dirty_chunks (tile_changeset (current_changeset
     (register_of 512 0 0 [] (tile_of 2 [True, False, False, False] True)))) \<and>
   update_resolution (image_buffer_of 1024)
     (register_of 512 0 0 [] (tile_of 2 [True, False, False, False] True)) =
   Inr (register_of 1024 0 0 [] (tile_of 4 (replicate 16 False) False)) \<and>
   last_changeset_id (register_of 1024 0 0 [] (tile_of 4 (replicate 16 False) False)) = 0"
  using resize_drops_pending_marks
  by (simp add: register_of_def tile_of_def image_buffer_of_def)

subsection \<open>C5: the 512 by 512 scenario\<close>

text \<open>
  C5, as amended. On an image of one tile a cursor is created and collects once (a new
  cursor is always told NEED_FULL_UPDATE and gets no region); then the region
  \<open>[0,300) x [0,10)\<close> of the 512 by 512 buffer is marked, which sets exactly the flags of
  the chunks (0,0) and (1,0) of the 2 by 2 grid; the next collection of that cursor
  answers CHANGES_AVAILABLE with exactly the rectangles \<open>[0,256) x [0,256)\<close> and
  \<open>[256,512) x [0,256)\<close>.
\<close>

theorem synced_cursor_scenario:
  "BKE_image_partial_update_collect_changes example_image
     (BKE_image_partial_update_create example_image) =
   Inr (PARTIAL_UPDATE_NEED_FULL_UPDATE, image_of PartialUpdateRegisterImpl_new, user_synced 0) \<and>
   BKE_image_partial_update_mark_region (image_of PartialUpdateRegisterImpl_new)
     (image_buffer_of 512) \<lparr>xmin = 0, xmax = 300, ymin = 0, ymax = 10\<rparr> =
   Inr (image_of (register_of 512 0 0 [] (tile_of 2 [True, True, False, False] True))) \<and>
   map (\<lambda>(chunk_x, chunk_y).
          is_chunk_dirty (tile_of 2 [True, True, False, False] True) chunk_x chunk_y)
     [(0, 0), (1, 0), (0, 1), (1, 1)] =
   [Inr True, Inr True, Inr False, Inr False] \<and>
   BKE_image_partial_update_collect_changes
     (image_of (register_of 512 0 0 [] (tile_of 2 [True, True, False, False] True)))
     (user_synced 0) =
   Inr (PARTIAL_UPDATE_CHANGES_AVAILABLE,
        image_of (register_of 512 0 1 [tile_of 2 [True, True, False, False] True]
                    (tile_of 2 [False, False, False, False] False)),
        \<lparr>user_last_changeset_id = 1,
         updated_regions =
           [\<lparr>tile_number = 1001, region = \<lparr>xmin = 0, xmax = 256, ymin = 0, ymax = 256\<rparr>\<rparr>,
            \<lparr>tile_number = 1001, region = \<lparr>xmin = 256, xmax = 512, ymin = 0, ymax = 256\<rparr>\<rparr>]\<rparr>)"
  using collect_fresh mark_after_collect dirty_chunks_after_mark collect_synced_after_mark
  by simp

text \<open>
  The claim as it is written fails: after the same mark, the first collection of a new
  cursor answers NEED_FULL_UPDATE and leaves the cursor without a region.
\<close>

theorem fresh_cursor_scenario_counterexample:
  "BKE_image_partial_update_mark_region example_image (image_buffer_of 512)
     \<lparr>xmin = 0, xmax = 300, ymin = 0, ymax = 10\<rparr> =
   Inr (image_of (register_of 512 0 0 [] (tile_of 2 [True, True, False, False] True))) \<and>
   BKE_image_partial_update_collect_changes
     (image_of (register_of 512 0 0 [] (tile_of 2 [True, True, False, False] True)))
     (BKE_image_partial_update_create
        (image_of (register_of 512 0 0 [] (tile_of 2 [True, True, False, False] True)))) =
   Inr (PARTIAL_UPDATE_NEED_FULL_UPDATE,
        image_of (register_of 512 0 1 [tile_of 2 [True, True, False, False] True]
                    (tile_of 2 [False, False, False, False] False)),
        \<lparr>user_last_changeset_id = 1, updated_regions = []\<rparr>)"
  using mark_example_image collect_fresh_after_mark by simp

subsection \<open>C6: remainder pixels\<close>

text \<open>
  C6. The claim is that the rectangles of the next collection cover every chunk that
  overlaps a marked rectangle, also the chunk of the remainder pixels of an image whose
  size is not a multiple of \<^verbatim>\<open>CHUNK_SIZE\<close>. The grid has \<^verbatim>\<open>image_width / CHUNK_SIZE\<close> columns,
  rounded down, so a 300 by 300 image has the single chunk \<open>[0,256) x [0,256)\<close>. The
  rectangle \<open>[260,290) x [0,10)\<close> lies inside the image, \<^verbatim>\<open>mark_region\<close> leaves at its first
  early exit, no flag is set, and a cursor that had seen changeset 0 is told NO_CHANGES.
  (Every chunk of the grid that overlaps the marked rectangle is collected, whenever the
  start index of the loop over the history is not negative: \<open>marked_chunk_is_collected\<close>.)
\<close>

theorem remainder_pixels_untracked:
  "run_ops [Update_resolution (image_buffer_of 300),
            Mark_region \<lparr>xmin = 260, xmax = 290, ymin = 0, ymax = 10\<rparr>]
     PartialUpdateRegisterImpl_new =
   Inr (register_of 300 0 0 [] (tile_of 1 [False] False)) \<and>
   BKE_image_partial_update_collect_changes
     (image_of (register_of 300 0 0 [] (tile_of 1 [False] False))) (user_synced 0) =
   Inr (PARTIAL_UPDATE_NO_CHANGES,
        image_of (register_of 300 0 0 [] (tile_of 1 [False] False)), user_synced 0)"
  using run_300_mark collect_300 by simp

subsection \<open>C7: the changeset ids\<close>

text \<open>
  C7. Let \<open>r\<close> be the register after any sequence of \<^verbatim>\<open>mark_region\<close>, \<^verbatim>\<open>mark_full_update\<close>,
  \<^verbatim>\<open>commit_current_changeset\<close>, \<^verbatim>\<open>ensure_empty_changeset\<close> and \<^verbatim>\<open>update_resolution\<close> on a new
  register, and \<open>r'\<close> the register after any further such sequence. Then
  \<open>last_changeset_id r - first_changeset_id r\<close> is the length of the history of \<open>r\<close>,
  \<open>first_changeset_id r \<le> last_changeset_id r\<close>, and \<open>last_changeset_id\<close> has not
  decreased from \<open>r\<close> to \<open>r'\<close>.
\<close>

theorem changeset_ids_invariant:
  assumes "run_ops ops PartialUpdateRegisterImpl_new = Inr r"
    and "run_ops ops' r = Inr r'"
  shows "last_changeset_id r - first_changeset_id r = int (length (history r)) \<and>
         first_changeset_id r \<le> last_changeset_id r \<and>
         last_changeset_id r \<le> last_changeset_id r'"
proof -
  have "last_changeset_id PartialUpdateRegisterImpl_new
          - first_changeset_id PartialUpdateRegisterImpl_new
        = int (length (history PartialUpdateRegisterImpl_new))"
    by (simp add: PartialUpdateRegisterImpl_new_def)
  from run_ops_ids [OF assms(1) this]
  have inv: "last_changeset_id r - first_changeset_id r = int (length (history r))" by simp
  from run_ops_ids [OF assms(2) inv] inv show ?thesis by simp
qed

theorem changeset_ids_invariant_witness:
  "run_ops [Update_resolution (image_buffer_of 512),
            Mark_region \<lparr>xmin = 0, xmax = 300, ymin = 0, ymax = 10\<rparr>,
            Commit_current_changeset]
     PartialUpdateRegisterImpl_new =
   Inr (register_of 512 0 1 [tile_of 2 [True, True, False, False] True]
          (tile_of 2 [False, False, False, False] False)) \<and>
   run_ops [Mark_full_update]
     (register_of 512 0 1 [tile_of 2 [True, True, False, False] True]
        (tile_of 2 [False, False, False, False] False)) =
   Inr (register_of 512 2 2 [] (tile_of 2 [False, False, False, False] False)) \<and>
   length (history (register_of 512 0 1 [tile_of 2 [True, True, False, False] True]
          (tile_of 2 [False, False, False, False] False))) = 1 \<and>
   last_changeset_id (register_of 512 0 1 [tile_of 2 [True, True, False, False] True]
          (tile_of 2 [False, False, False, False] False)) \<le>
   last_changeset_id (register_of 512 2 2 [] (tile_of 2 [False, False, False, False] False))"
  using changeset_ids_invariant [OF run_512_commit run_512_full_update]
    run_512_commit run_512_full_update
  by (simp add: register_of_def)

subsection \<open>C8: merge\<close>

text \<open>
  C8. Let \<open>a\<close> and \<open>b\<close> be tile changesets with the same grid dimensions, each with one
  flag per chunk. Then \<^verbatim>\<open>a.merge(b)\<close> succeeds; the result \<open>c\<close> has the grid of \<open>a\<close>, its
  summary flag is the disjunction of the two summary flags, and for every chunk
  \<open>(x, y)\<close> of the grid \<^verbatim>\<open>is_chunk_dirty\<close> answers on \<open>c\<close> the disjunction of its answers on
  \<open>a\<close> and \<open>b\<close>. Merging \<open>a\<close> into itself gives \<open>a\<close>.
\<close>

theorem merge_is_union:
  assumes "tile_sized a" "tile_sized b"
    and "chunk_x_len a = chunk_x_len b" "chunk_y_len a = chunk_y_len b"
  shows "(\<exists>c. merge a b = Inr c \<and>
            chunk_x_len c = chunk_x_len a \<and> chunk_y_len c = chunk_y_len a \<and>
            has_dirty_chunks c = (has_dirty_chunks a \<or> has_dirty_chunks b) \<and>
            (\<forall>x y. 0 \<le> x \<and> x < chunk_x_len a \<and> 0 \<le> y \<and> y < chunk_y_len a \<longrightarrow>
               (\<exists>da db. is_chunk_dirty a x y = Inr da \<and> is_chunk_dirty b x y = Inr db \<and>
                  is_chunk_dirty c x y = Inr (da \<or> db)))) \<and>
         merge a a = Inr a"
proof -
  let ?c = "a\<lparr>chunk_dirty_flags := map2 (\<or>) (chunk_dirty_flags a) (chunk_dirty_flags b),
               has_dirty_chunks := (has_dirty_chunks a \<or> has_dirty_chunks b)\<rparr>"
  have m: "merge a b = Inr ?c" by (rule merge_sized [OF assms])
  have len: "length (chunk_dirty_flags a) = length (chunk_dirty_flags b)"
    using assms by (simp add: tile_sized_def)
  have c: "tile_sized ?c"
    using assms(1) len by (simp add: tile_sized_def)
  have chunk: "\<exists>da db. is_chunk_dirty a x y = Inr da \<and> is_chunk_dirty b x y = Inr db \<and>
      is_chunk_dirty ?c x y = Inr (da \<or> db)"
    if xy: "0 \<le> x" "x < chunk_x_len a" "0 \<le> y" "y < chunk_y_len a" for x y
  proof -
    have a: "is_chunk_dirty a x y = Inr (dirty_at a x y)"
      using assms(1) xy by (intro is_chunk_dirty_ok) (simp_all add: tile_sized_def)
    have b: "is_chunk_dirty b x y = Inr (dirty_at b x y)"
      using assms(2-4) xy by (intro is_chunk_dirty_ok) (simp_all add: tile_sized_def)
    have c': "is_chunk_dirty ?c x y = Inr (dirty_at ?c x y)"
      using c xy by (intro is_chunk_dirty_ok) (simp_all add: tile_sized_def)
    have "nat (y * chunk_x_len a + x) < length (chunk_dirty_flags a)"
      using chunk_index_bounds [OF xy] assms(1) by (simp add: tile_sized_def nat_less_iff)
    then have "dirty_at ?c x y = (dirty_at a x y \<or> dirty_at b x y)"
      using len assms(3) by (simp add: dirty_at_def)
    with a b c' show ?thesis by simp
  qed
  have self: "merge a a = Inr a"
    using merge_sized [OF assms(1) assms(1)] by (simp add: map2_or_same)
  from m chunk self show ?thesis by auto
qed

theorem merge_is_union_witness:
  "tile_sized (tile_of 2 [True, False, False, False] True) \<and>
   tile_sized (tile_of 2 [False, True, False, False] True) \<and>
   (\<exists>c. merge (tile_of 2 [True, False, False, False] True)
             (tile_of 2 [False, True, False, False] True) = Inr c \<and>
        has_dirty_chunks c \<and>
        is_chunk_dirty c 0 0 = Inr True \<and> is_chunk_dirty c 1 0 = Inr True \<and>
        is_chunk_dirty c 0 1 = Inr False \<and> is_chunk_dirty c 1 1 = Inr False) \<and>
   merge (tile_of 2 [True, False, False, False] True) (tile_of 2 [True, False, False, False] True) =
     Inr (tile_of 2 [True, False, False, False] True)"
proof -
  let ?a = "tile_of 2 [True, False, False, False] True"
  let ?b = "tile_of 2 [False, True, False, False] True"
  have s: "tile_sized ?a" "tile_sized ?b"
    and d: "chunk_x_len ?a = chunk_x_len ?b" "chunk_y_len ?a = chunk_y_len ?b"
    by (simp_all add: tile_sized_def tile_of_def)
  from merge_is_union [OF s d] obtain c where c: "merge ?a ?b = Inr c"
    "has_dirty_chunks c = (has_dirty_chunks ?a \<or> has_dirty_chunks ?b)"
    "\<forall>x y. 0 \<le> x \<and> x < chunk_x_len ?a \<and> 0 \<le> y \<and> y < chunk_y_len ?a \<longrightarrow>
       (\<exists>da db. is_chunk_dirty ?a x y = Inr da \<and> is_chunk_dirty ?b x y = Inr db \<and>
          is_chunk_dirty c x y = Inr (da \<or> db))"
    and self: "merge ?a ?a = Inr ?a"
    by blast
  have ev: "is_chunk_dirty ?a 0 0 = Inr True" "is_chunk_dirty ?b 0 0 = Inr False"
    "is_chunk_dirty ?a 1 0 = Inr False" "is_chunk_dirty ?b 1 0 = Inr True"
    "is_chunk_dirty ?a 0 1 = Inr False" "is_chunk_dirty ?b 0 1 = Inr False"
    "is_chunk_dirty ?a 1 1 = Inr False" "is_chunk_dirty ?b 1 1 = Inr False"
    by (simp_all add: is_chunk_dirty_def tile_of_def)
  have len: "chunk_x_len ?a = 2" "chunk_y_len ?a = 2"
    by (simp_all add: tile_of_def)
  have "is_chunk_dirty c 0 0 = Inr True"
    using c(3) [rule_format, of 0 0] ev(1,2) len by auto
  moreover have "is_chunk_dirty c 1 0 = Inr True"
    using c(3) [rule_format, of 1 0] ev(3,4) len by auto
  moreover have "is_chunk_dirty c 0 1 = Inr False"
    using c(3) [rule_format, of 0 1] ev(5,6) len by auto
  moreover have "is_chunk_dirty c 1 1 = Inr False"
    using c(3) [rule_format, of 1 1] ev(7,8) len by auto
  moreover have "has_dirty_chunks c"
    using c(2) by (simp add: tile_of_def)
  ultimately show ?thesis using s c(1) self by blast
qed

subsection \<open>C9: two collections in a row\<close>




subsection \<open>C10: regions of an earlier collection\<close>

text \<open>
  C10. Whatever regions the cursor still holds when a collection starts, the collection
  returns what it returns for the cursor with its regions cleared; and when the answer
  is NO_CHANGES or NEED_FULL_UPDATE the cursor holds no region afterwards, so that
  \<^verbatim>\<open>BKE_image_partial_update_get_next_change\<close> answers FINISHED at once.
\<close>

theorem collect_changes_clears_first:
  assumes "BKE_image_partial_update_collect_changes img user = Inr (res, img', user')"
  shows "BKE_image_partial_update_collect_changes img (clear_updated_regions user) =
           Inr (res, img', user') \<and>
         (res \<noteq> PARTIAL_UPDATE_CHANGES_AVAILABLE \<longrightarrow>
          updated_regions user' = [] \<and>
          BKE_image_partial_update_get_next_change user' =
            (PARTIAL_UPDATE_ITER_FINISHED, user', None))"
proof -
  have "BKE_image_partial_update_collect_changes img (clear_updated_regions user) =
        BKE_image_partial_update_collect_changes img user"
    by (simp add: BKE_image_partial_update_collect_changes_def clear_updated_regions_def)
  moreover have "updated_regions user' = [] \<and>
          BKE_image_partial_update_get_next_change user' =
            (PARTIAL_UPDATE_ITER_FINISHED, user', None)"
    if "res \<noteq> PARTIAL_UPDATE_CHANGES_AVAILABLE"
    using assms that
    by (auto simp: BKE_image_partial_update_collect_changes_def clear_updated_regions_def Let_def
        BKE_image_partial_update_get_next_change_def split: sum.splits if_splits)
  ultimately show ?thesis using assms by simp
qed

theorem collect_changes_clears_first_witness:
  "BKE_image_partial_update_collect_changes example_image stale_user =
     Inr (PARTIAL_UPDATE_NEED_FULL_UPDATE, image_of PartialUpdateRegisterImpl_new, user_synced 0) \<and>
   updated_regions stale_user = [chunk_region 1001 0 0] \<and>
   BKE_image_partial_update_collect_changes example_image (clear_updated_regions stale_user) =
     Inr (PARTIAL_UPDATE_NEED_FULL_UPDATE, image_of PartialUpdateRegisterImpl_new, user_synced 0) \<and>
   updated_regions (user_synced 0) = [] \<and>
   BKE_image_partial_update_get_next_change (user_synced 0) =
     (PARTIAL_UPDATE_ITER_FINISHED, user_synced 0, None)"
  using collect_changes_clears_first [OF collect_stale_user] collect_stale_user
  by (simp add: stale_user_def)

end
